theory Spec2Isabelle
  imports Main "HOL-Library.Word" "HOL-Library.Signed_Division"
begin

unbundle bit_operations_syntax

section \<open>Go library functions used by the provider\<close>

text \<open>
  The provider (\<^verbatim>\<open>websupport/provider.go\<close>) is a thin client: what it computes itself is
  string formatting, name matching and control flow; hashing, JSON decoding, the clock and
  the network belong to the Go library and the remote service. The pure library functions
  whose results the provider's behaviour depends on are written out here; the others are
  parameters of the environment record further down.
\<close>

subsection \<open>\<^verbatim>\<open>fmt.Sprintf("%d", i)\<close>\<close>

definition digit_char :: "nat \<Rightarrow> char" where
  "digit_char n = ''0123456789'' ! n"

fun digits10 :: "nat \<Rightarrow> string" where
  "digits10 n = (if n < 10 then [digit_char n] else digits10 (n div 10) @ [digit_char (n mod 10)])"

declare digits10.simps [simp del]

definition fmt_d :: "int \<Rightarrow> string" where
  "fmt_d i = (if i < 0 then CHR ''-'' # digits10 (nat (- i)) else digits10 (nat i))"

subsection \<open>\<^verbatim>\<open>strings.HasSuffix\<close>, \<^verbatim>\<open>strings.TrimSuffix\<close>\<close>

definition HasSuffix :: "string \<Rightarrow> string \<Rightarrow> bool" where
  "HasSuffix s suffix =
     (length s \<ge> length suffix \<and> drop (length s - length suffix) s = suffix)"

definition TrimSuffix :: "string \<Rightarrow> string \<Rightarrow> string" where
  "TrimSuffix s suffix =
     (if HasSuffix s suffix then take (length s - length suffix) s else s)"

subsection \<open>\<^verbatim>\<open>hex.EncodeToString\<close>\<close>

definition hextable :: string where
  "hextable = ''0123456789abcdef''"

fun EncodeToString :: "8 word list \<Rightarrow> string" where
  "EncodeToString [] = []"
| "EncodeToString (v # src) =
     hextable ! unat (drop_bit 4 v) # hextable ! unat (v AND 0x0f) # EncodeToString src"

subsection \<open>\<^verbatim>\<open>time.Duration\<close> and \<^verbatim>\<open>Duration.Seconds\<close>\<close>

text \<open>
  A \<^verbatim>\<open>time.Duration\<close> is an \<^verbatim>\<open>int64\<close> count of nanoseconds. \<^verbatim>\<open>Seconds\<close> is
  \<^verbatim>\<open>
  func (d Duration) Seconds() float64 {
      sec := d / Second
      nsec := d % Second
      return float64(sec) + float64(nsec)/1e9
  }
  \<close>
  and the provider truncates the result with \<^verbatim>\<open>int(...)\<close>. The float64 arithmetic is
  IEEE 754 binary64 with round-to-nearest, ties-to-even. A finite binary64 value is
  represented by a mantissa and an exponent, \<open>Float64 m e\<close> standing for \<open>m * 2 ^ e\<close>; every
  operation rounds the exact result to 53 significant bits. The operands of \<^verbatim>\<open>Seconds\<close>
  are below \<open>2 ^ 34\<close> in magnitude and its non-zero results are at least \<open>10 ^ -9\<close>, far
  from overflow and from the subnormal range, so the exponent is left unbounded.
\<close>

type_synonym Duration = "64 word"

definition Second :: Duration where
  "Second = 1000000000"

datatype float64 = Float64 int int

fun bit_length :: "nat \<Rightarrow> nat" where
  "bit_length n = (if n = 0 then 0 else Suc (bit_length (n div 2)))"

declare bit_length.simps [simp del]

text \<open>The exponent of the leading bit of \<open>a / b\<close>, that is \<open>\<lfloor>log\<^sub>2 (a / b)\<rfloor>\<close>, for positive \<open>a\<close>, \<open>b\<close>.\<close>

definition ilog2_ratio :: "nat \<Rightarrow> nat \<Rightarrow> int" where
  "ilog2_ratio a b =
     (let d = int (bit_length a) - int (bit_length b)
      in if b * 2 ^ nat d \<le> a * 2 ^ nat (- d) then d else d - 1)"

text \<open>The binary64 nearest to the rational \<open>n / d\<close> (\<open>d > 0\<close>), ties to the even mantissa.\<close>

definition round_ratio :: "int \<Rightarrow> int \<Rightarrow> float64" where
  "round_ratio n d =
     (if n = 0 then Float64 0 0
      else
        let a = nat \<bar>n\<bar>; b = nat d;
            e = ilog2_ratio a b;
            num = a * 2 ^ nat (52 - e);
            den = b * 2 ^ nat (e - 52);
            q = num div den;
            r = num mod den;
            m = (if 2 * r < den \<or> (2 * r = den \<and> even q) then q else q + 1)
        in Float64 (sgn n * int m) (e - 52))"

definition float64_of_int :: "int \<Rightarrow> float64" where
  "float64_of_int i = round_ratio i 1"

fun float64_add :: "float64 \<Rightarrow> float64 \<Rightarrow> float64" where
  "float64_add (Float64 m1 e1) (Float64 m2 e2) =
     (let e = min e1 e2;
          n = m1 * 2 ^ nat (e1 - e) + m2 * 2 ^ nat (e2 - e)
      in round_ratio (n * 2 ^ nat e) (2 ^ nat (- e)))"

text \<open>Division by a non-zero value (the provider only divides by the constant \<open>1e9\<close>).\<close>

fun float64_div :: "float64 \<Rightarrow> float64 \<Rightarrow> float64" where
  "float64_div (Float64 m1 e1) (Float64 m2 e2) =
     round_ratio (sgn m2 * m1 * 2 ^ nat (e1 - e2)) (\<bar>m2\<bar> * 2 ^ nat (e2 - e1))"

text \<open>The conversion \<^verbatim>\<open>int(f)\<close> discards the fraction (truncation toward zero).\<close>

fun int_of_float64 :: "float64 \<Rightarrow> int" where
  "int_of_float64 (Float64 m e) =
     (if e \<ge> 0 then m * 2 ^ nat e else sgn m * (\<bar>m\<bar> div 2 ^ nat (- e)))"

definition Seconds :: "Duration \<Rightarrow> float64" where
  "Seconds d =
     (let sec = sint d sdiv sint Second;
          nsec = sint d smod sint Second
      in float64_add (float64_of_int sec)
           (float64_div (float64_of_int nsec) (float64_of_int 1000000000)))"

section \<open>Data model\<close>

text \<open>
  \<^verbatim>\<open>ProviderData\<close> has type \<^verbatim>\<open>any\<close>; the code only distinguishes a string from
  everything else (\<^verbatim>\<open>r.ProviderData.(string)\<close>).
\<close>

datatype any = any_nil | any_string string | any_other

record TXT =
  Name :: string
  TTL :: Duration
  Text :: string
  ProviderData :: any

text \<open>
  A \<^verbatim>\<open>libdns.Record\<close> is an interface value. The provider acts on those whose dynamic
  type is \<^verbatim>\<open>*libdns.TXT\<close>, a pointer into the caller's memory, and skips every other
  one. The caller's records live in a heap; an address the heap does not hold stands
  for a nil pointer, whose dereference panics.
\<close>

datatype Record = TXT_ptr nat | Other_record

type_synonym heap = "nat \<rightharpoonup> TXT"

record Client =
  Transport :: nat
  client_Timeout :: Duration

record Provider =
  APIKey :: string
  APISecret :: string
  APIBase :: string
  ServiceID :: string
  HTTPClient :: "Client option"
  Timeout :: Duration

text \<open>
  An outbound request. \<^verbatim>\<open>SetBasicAuth(user, password)\<close> is kept as the pair it was
  called with; the other headers in the order they were set.
\<close>

record Request =
  Method :: string
  URL :: string
  Body :: "string option"
  BasicAuth :: "(string \<times> string) option"
  Header :: "(string \<times> string) list"

record Response =
  StatusCode :: int
  Status :: string
  RespBody :: string

text \<open>The listing endpoint's decoded JSON (the anonymous struct of \<^verbatim>\<open>GetRecords\<close>).\<close>

record Item =
  ID :: int
  item_Name :: string
  Type :: string
  Content :: string
  item_TTL :: int

record Listing =
  CurrentPage :: int
  TotalPages :: int
  TotalRecords :: int
  Data :: "Item list"

datatype error = Panic | Error string

text \<open>
  What the provider takes from outside: the keyed hash, the request constructor's
  validation of method and URL, the HTTP client's round trip (which may change the
  remote world \<open>'w\<close>), the clock, the date formatter, the blocking sleep and the JSON
  decoder of the listing.
\<close>

record 'w env =
  hmac_sha1 :: "string \<Rightarrow> string \<Rightarrow> 8 word list"
  NewRequest_error :: "string \<Rightarrow> string \<Rightarrow> string option"
  Do :: "Client \<Rightarrow> Request \<Rightarrow> 'w \<Rightarrow> (string + Response) \<times> 'w"
  Unix :: "'w \<Rightarrow> int"
  Format :: "int \<Rightarrow> string"
  Sleep :: "Duration \<Rightarrow> 'w \<Rightarrow> 'w"
  Decode :: "string \<Rightarrow> string + Listing"

text \<open>
  The mutable state an operation runs in: the provider (a pointer receiver, changed by
  \<^verbatim>\<open>ensureClient\<close>), the caller's records, the world outside, and a log of every HTTP
  exchange (request sent, outcome received) in order.
\<close>

record 'w state =
  provider :: Provider
  heap :: heap
  world :: 'w
  log :: "(Request \<times> (string + Response)) list"

section \<open>The provider\<close>

subsection \<open>\<^verbatim>\<open>ensureClient\<close>, \<^verbatim>\<open>calculateSignature\<close>, \<^verbatim>\<open>addAuthHeaders\<close>\<close>

definition ensureClient :: "Provider \<Rightarrow> Provider" where
  "ensureClient p =
     (let p = (if HTTPClient p = None
               then p\<lparr>HTTPClient := Some \<lparr>Transport = 0, client_Timeout = 30 * Second\<rparr>\<rparr>
               else p)
      in if Timeout p = 0 then p\<lparr>Timeout := 30 * Second\<rparr> else p)"

definition calculateSignature :: "'w env \<Rightarrow> Provider \<Rightarrow> string \<Rightarrow> string \<Rightarrow> int \<Rightarrow> string" where
  "calculateSignature env p method path timestamp =
     (let canonicalRequest = method @ '' '' @ path @ '' '' @ fmt_d timestamp
      in EncodeToString (hmac_sha1 env (APISecret p) canonicalRequest))"

definition addAuthHeaders ::
  "'w env \<Rightarrow> Provider \<Rightarrow> Request \<Rightarrow> string \<Rightarrow> string \<Rightarrow> 'w \<Rightarrow> Request" where
  "addAuthHeaders env p req method path w =
     (let timestamp = Unix env w;
          signature = calculateSignature env p method path timestamp
      in req\<lparr>BasicAuth := Some (APIKey p, signature),
              Header := Header req @
                [(''X-Date'', Format env timestamp),
                 (''Content-Type'', ''application/json''),
                 (''Accept'', ''application/json'')]\<rparr>)"

text \<open>
  \<^verbatim>\<open>http.NewRequestWithContext\<close>: an error when the library rejects the method or the
  URL, otherwise a request with no headers yet.
\<close>

definition NewRequest :: "'w env \<Rightarrow> string \<Rightarrow> string \<Rightarrow> string option \<Rightarrow> string + Request" where
  "NewRequest env method url body =
     (case NewRequest_error env method url of
        Some err \<Rightarrow> Inl err
      | None \<Rightarrow> Inr \<lparr>Method = method, URL = url, Body = body, BasicAuth = None, Header = []\<rparr>)"

text \<open>
  \<^verbatim>\<open>p.HTTPClient.Do(req)\<close>: the round trip through the provider's client, logged. A
  nil client would be a nil dereference.
\<close>

definition Do_request :: "'w env \<Rightarrow> Request \<Rightarrow> 'w state \<Rightarrow> (error + Response) \<times> 'w state" where
  "Do_request env req st =
     (case HTTPClient (provider st) of
        None \<Rightarrow> (Inl Panic, st)
      | Some client \<Rightarrow>
          (case Do env client req (world st) of
             (Inl err, w) \<Rightarrow> (Inl (Error err), st\<lparr>world := w, log := log st @ [(req, Inl err)]\<rparr>)
           | (Inr resp, w) \<Rightarrow> (Inr resp, st\<lparr>world := w, log := log st @ [(req, Inr resp)]\<rparr>)))"

definition ServiceID_required :: string where
  "ServiceID_required = ''ServiceID is required - set WEBSUPPORT_SERVICE_ID environment variable''"

subsection \<open>\<^verbatim>\<open>GetRecords\<close>\<close>

text \<open>The record built from one listed item (the body of the inner loop, past the type filter).\<close>

definition txt_of_item :: "Item \<Rightarrow> TXT" where
  "txt_of_item item =
     \<lparr>Name = item_Name item,
      TTL = word_of_int (item_TTL item) * Second,
      Text = Content item,
      ProviderData = any_string (fmt_d (ID item))\<rparr>"

fun append_items :: "TXT list \<Rightarrow> Item list \<Rightarrow> TXT list" where
  "append_items allRecords [] = allRecords"
| "append_items allRecords (item # items) =
     (if Type item \<noteq> ''TXT'' then append_items allRecords items
      else append_items (allRecords @ [txt_of_item item]) items)"

definition list_urlPath :: "Provider \<Rightarrow> int \<Rightarrow> string" where
  "list_urlPath p page =
     ''/service/'' @ ServiceID p @ ''/dns/record?page='' @ fmt_d page @ ''&rowsPerPage=100''"

definition list_sigPath :: "Provider \<Rightarrow> string" where
  "list_sigPath p = ''/v2/service/'' @ ServiceID p @ ''/dns/record''"

text \<open>
  The \<^verbatim>\<open>for { ... }\<close> loop of \<^verbatim>\<open>GetRecords\<close> has no bound of its own: it runs until a
  response reports \<^verbatim>\<open>CurrentPage >= TotalPages\<close> or a request fails. The model takes
  fuel, one unit per page request; \<open>None\<close> is a loop still running when the fuel is used
  up, and the state returned with it holds the requests issued so far. The records are
  freshly allocated by the loop and never written again, so they are kept as values. The
  page counter is a Go \<^verbatim>\<open>int\<close>; it is modelled unbounded (it would take \<open>2 ^ 31\<close> successful
  page requests to overflow the narrowest one).
\<close>

fun GetRecords_loop ::
  "'w env \<Rightarrow> nat \<Rightarrow> int \<Rightarrow> TXT list \<Rightarrow> 'w state \<Rightarrow> (error + TXT list) option \<times> 'w state" where
  "GetRecords_loop env 0 page allRecords st = (None, st)"
| "GetRecords_loop env (Suc fuel) page allRecords st =
     (let p = provider st
      in case NewRequest env ''GET'' (APIBase p @ list_urlPath p page) None of
           Inl err \<Rightarrow> (Some (Inl (Error err)), st)
         | Inr req \<Rightarrow>
             (case Do_request env (addAuthHeaders env p req ''GET'' (list_sigPath p) (world st)) st of
                (Inl err, st) \<Rightarrow> (Some (Inl err), st)
              | (Inr resp, st) \<Rightarrow>
                  if StatusCode resp \<noteq> 200
                  then (Some (Inl (Error (''failed to get records: '' @ Status resp @
                                          '', body: '' @ RespBody resp))), st)
                  else
                    (case Decode env (RespBody resp) of
                       Inl err \<Rightarrow> (Some (Inl (Error (''failed to decode response: '' @ err))), st)
                     | Inr result \<Rightarrow>
                         let allRecords = append_items allRecords (Data result)
                         in if CurrentPage result \<ge> TotalPages result
                            then (Some (Inr allRecords), st)
                            else GetRecords_loop env fuel (page + 1) allRecords st)))"

definition GetRecords ::
  "'w env \<Rightarrow> nat \<Rightarrow> string \<Rightarrow> 'w state \<Rightarrow> (error + TXT list) option \<times> 'w state" where
  "GetRecords env fuel zone st =
     (let st = st\<lparr>provider := ensureClient (provider st)\<rparr>
      in if ServiceID (provider st) = []
         then (Some (Inl (Error ServiceID_required)), st)
         else GetRecords_loop env fuel 1 [] st)"

subsection \<open>\<^verbatim>\<open>AppendRecords\<close>\<close>

text \<open>The request body (the \<^verbatim>\<open>fmt.Sprintf\<close> of the creation request).\<close>

definition create_body :: "TXT \<Rightarrow> string" where
  "create_body r =
     ''{\"type\":\"TXT\",\"name\":\"'' @ Name r @ ''\",\"content\":\"'' @ Text r @
     ''\",\"ttl\":'' @ fmt_d (int_of_float64 (Seconds (TTL r))) @ ''}''"

definition create_urlPath :: "Provider \<Rightarrow> string" where
  "create_urlPath p = ''/service/'' @ ServiceID p @ ''/dns/record''"

definition create_sigPath :: "Provider \<Rightarrow> string" where
  "create_sigPath p = ''/v2/service/'' @ ServiceID p @ ''/dns/record''"

text \<open>
  The search for the record just created: the first listed record whose normalised name
  and whose text match gives its \<^verbatim>\<open>ProviderData\<close> to \<open>r\<close>, and the loop breaks.
\<close>

fun copy_ProviderData :: "string \<Rightarrow> string \<Rightarrow> TXT \<Rightarrow> TXT list \<Rightarrow> TXT" where
  "copy_ProviderData zone normalizedName r [] = r"
| "copy_ProviderData zone normalizedName r (txtRec # allRecs) =
     (let existingName = TrimSuffix (Name txtRec) ''.'';
          existingName = TrimSuffix existingName (''.'' @ TrimSuffix zone ''.'')
      in if existingName = normalizedName \<and> Text txtRec = Text r
         then r\<lparr>ProviderData := ProviderData txtRec\<rparr>
         else copy_ProviderData zone normalizedName r allRecs)"

text \<open>The default of two minutes when the record has no TTL.\<close>

definition default_TTL :: "TXT \<Rightarrow> TXT" where
  "default_TTL r = (if TTL r = 0 then r\<lparr>TTL := 120 * Second\<rparr> else r)"

text \<open>
  How one iteration of the loop over the input records ends: the called listing was still
  running when the fuel was used up, the function returned an error, the record was
  skipped (\<^verbatim>\<open>continue\<close>), or the iteration ran to its end and appended the record.
\<close>

datatype iteration = Unfinished | Failed error | Skipped | Completed

text \<open>The body of the loop of \<^verbatim>\<open>AppendRecords\<close> for a record \<^verbatim>\<open>r\<close> at address \<open>a\<close>.\<close>

definition AppendRecords_body ::
  "'w env \<Rightarrow> nat \<Rightarrow> string \<Rightarrow> nat \<Rightarrow> 'w state \<Rightarrow> iteration \<times> 'w state" where
  "AppendRecords_body env fuel zone a st =
     (case heap st a of
        None \<Rightarrow> (Failed Panic, st)
      | Some r0 \<Rightarrow>
          let r = default_TTL r0;
              st = st\<lparr>heap := (heap st)(a \<mapsto> r)\<rparr>;
              p = provider st
          in case NewRequest env ''POST'' (APIBase p @ create_urlPath p) (Some (create_body r)) of
               Inl err \<Rightarrow> (Failed (Error err), st)
             | Inr req \<Rightarrow>
                 (case Do_request env (addAuthHeaders env p req ''POST'' (create_sigPath p) (world st)) st of
                    (Inl err, st) \<Rightarrow> (Failed err, st)
                  | (Inr resp, st) \<Rightarrow>
                      if StatusCode resp \<noteq> 204
                      then (Failed (Error (''failed to create record: '' @ Status resp @
                                           '', body: '' @ RespBody resp)), st)
                      else
                        (case GetRecords env fuel zone (st\<lparr>world := Sleep env Second (world st)\<rparr>) of
                           (None, st) \<Rightarrow> (Unfinished, st)
                         | (Some (Inl err), st) \<Rightarrow> (Completed, st)
                         | (Some (Inr allRecs), st) \<Rightarrow>
                             (Completed,
                              st\<lparr>heap := (heap st)(a \<mapsto>
                                 copy_ProviderData zone (TrimSuffix (Name r) ''.'') r allRecs)\<rparr>))))"

fun AppendRecords_loop ::
  "'w env \<Rightarrow> nat \<Rightarrow> string \<Rightarrow> Record list \<Rightarrow> Record list \<Rightarrow> 'w state
     \<Rightarrow> (error + Record list) option \<times> 'w state" where
  "AppendRecords_loop env fuel zone [] created st = (Some (Inr created), st)"
| "AppendRecords_loop env fuel zone (Other_record # recs) created st =
     AppendRecords_loop env fuel zone recs created st"
| "AppendRecords_loop env fuel zone (TXT_ptr a # recs) created st =
     (case AppendRecords_body env fuel zone a st of
        (Unfinished, st) \<Rightarrow> (None, st)
      | (Failed err, st) \<Rightarrow> (Some (Inl err), st)
      | (Skipped, st) \<Rightarrow> AppendRecords_loop env fuel zone recs created st
      | (Completed, st) \<Rightarrow> AppendRecords_loop env fuel zone recs (created @ [TXT_ptr a]) st)"

definition AppendRecords ::
  "'w env \<Rightarrow> nat \<Rightarrow> string \<Rightarrow> Record list \<Rightarrow> 'w state \<Rightarrow> (error + Record list) option \<times> 'w state" where
  "AppendRecords env fuel zone recs st =
     (let st = st\<lparr>provider := ensureClient (provider st)\<rparr>
      in if ServiceID (provider st) = []
         then (Some (Inl (Error ServiceID_required)), st)
         else AppendRecords_loop env fuel zone recs [] st)"

subsection \<open>\<^verbatim>\<open>DeleteRecords\<close>\<close>

text \<open>The fallback search of \<^verbatim>\<open>DeleteRecords\<close>: exact name, exact text, first match.\<close>

fun find_id :: "TXT \<Rightarrow> string \<Rightarrow> TXT list \<Rightarrow> string" where
  "find_id r ident [] = ident"
| "find_id r ident (txtRec # allRecs) =
     (if Name txtRec = Name r \<and> Text txtRec = Text r
      then (case ProviderData txtRec of any_string s \<Rightarrow> s | _ \<Rightarrow> [])
      else find_id r ident allRecs)"

text \<open>
  The identifier to delete \<open>r\<close> by (the lines from the type assertion on
  \<^verbatim>\<open>r.ProviderData\<close> to the end of the fallback): \<open>Some (Some ident)\<close> to go on with the
  identifier \<open>ident\<close>, \<open>Some None\<close> for \<^verbatim>\<open>continue\<close>, \<open>None\<close> when the listing was still
  running at the end of the fuel.
\<close>

definition resolve_id ::
  "'w env \<Rightarrow> nat \<Rightarrow> string \<Rightarrow> TXT \<Rightarrow> 'w state \<Rightarrow> string option option \<times> 'w state" where
  "resolve_id env fuel zone r st =
     (let (ident, ok) = (case ProviderData r of any_string s \<Rightarrow> (s, True) | _ \<Rightarrow> ([], False))
      in if \<not> ok \<or> ident = []
         then
           (case GetRecords env fuel zone st of
              (None, st) \<Rightarrow> (None, st)
            | (Some (Inl err), st) \<Rightarrow> (Some None, st)
            | (Some (Inr allRecs), st) \<Rightarrow>
                let ident = find_id r ident allRecs
                in if ident = [] then (Some None, st) else (Some (Some ident), st))
         else (Some (Some ident), st))"

definition delete_urlPath :: "Provider \<Rightarrow> string \<Rightarrow> string" where
  "delete_urlPath p ident = ''/service/'' @ ServiceID p @ ''/dns/record/'' @ ident"

definition delete_sigPath :: "Provider \<Rightarrow> string \<Rightarrow> string" where
  "delete_sigPath p ident = ''/v2/service/'' @ ServiceID p @ ''/dns/record/'' @ ident"

text \<open>The body of the loop of \<^verbatim>\<open>DeleteRecords\<close> for a record at address \<open>a\<close>.\<close>

definition DeleteRecords_body ::
  "'w env \<Rightarrow> nat \<Rightarrow> string \<Rightarrow> nat \<Rightarrow> 'w state \<Rightarrow> iteration \<times> 'w state" where
  "DeleteRecords_body env fuel zone a st =
     (case heap st a of
        None \<Rightarrow> (Failed Panic, st)
      | Some r \<Rightarrow>
          (case resolve_id env fuel zone r st of
             (None, st) \<Rightarrow> (Unfinished, st)
           | (Some None, st) \<Rightarrow> (Skipped, st)
           | (Some (Some ident), st) \<Rightarrow>
               let p = provider st
               in case NewRequest env ''DELETE'' (APIBase p @ delete_urlPath p ident) None of
                    Inl err \<Rightarrow> (Failed (Error err), st)
                  | Inr req \<Rightarrow>
                      (case Do_request env
                              (addAuthHeaders env p req ''DELETE'' (delete_sigPath p ident) (world st)) st of
                         (Inl err, st) \<Rightarrow> (Failed err, st)
                       | (Inr resp, st) \<Rightarrow>
                           if StatusCode resp \<noteq> 204
                           then (Failed (Error (''failed to delete record: '' @ Status resp)), st)
                           else (Completed, st))))"

fun DeleteRecords_loop ::
  "'w env \<Rightarrow> nat \<Rightarrow> string \<Rightarrow> Record list \<Rightarrow> Record list \<Rightarrow> 'w state
     \<Rightarrow> (error + Record list) option \<times> 'w state" where
  "DeleteRecords_loop env fuel zone [] deleted st = (Some (Inr deleted), st)"
| "DeleteRecords_loop env fuel zone (Other_record # recs) deleted st =
     DeleteRecords_loop env fuel zone recs deleted st"
| "DeleteRecords_loop env fuel zone (TXT_ptr a # recs) deleted st =
     (case DeleteRecords_body env fuel zone a st of
        (Unfinished, st) \<Rightarrow> (None, st)
      | (Failed err, st) \<Rightarrow> (Some (Inl err), st)
      | (Skipped, st) \<Rightarrow> DeleteRecords_loop env fuel zone recs deleted st
      | (Completed, st) \<Rightarrow> DeleteRecords_loop env fuel zone recs (deleted @ [TXT_ptr a]) st)"

definition DeleteRecords ::
  "'w env \<Rightarrow> nat \<Rightarrow> string \<Rightarrow> Record list \<Rightarrow> 'w state \<Rightarrow> (error + Record list) option \<times> 'w state" where
  "DeleteRecords env fuel zone recs st =
     (let st = st\<lparr>provider := ensureClient (provider st)\<rparr>
      in if ServiceID (provider st) = []
         then (Some (Inl (Error ServiceID_required)), st)
         else DeleteRecords_loop env fuel zone recs [] st)"

section \<open>Vocabulary of the specification\<close>

text \<open>
  The listing a logged exchange carried: the response had status 200 and its body decoded.
\<close>

definition decoded :: "'w env \<Rightarrow> Request \<times> (string + Response) \<Rightarrow> Listing option" where
  "decoded env e =
     (case snd e of
        Inl err \<Rightarrow> None
      | Inr resp \<Rightarrow>
          if StatusCode resp = 200
          then (case Decode env (RespBody resp) of Inl err \<Rightarrow> None | Inr l \<Rightarrow> Some l)
          else None)"

text \<open>
  The listing request for page \<open>k\<close>: the URL is the base followed by the path without
  version prefix and the query; the signature is computed over the path with the \<^verbatim>\<open>/v2\<close>
  prefix and without the query.
\<close>

definition list_request :: "'w env \<Rightarrow> Provider \<Rightarrow> int \<Rightarrow> Request \<Rightarrow> bool" where
  "list_request env p k req =
     (Method req = ''GET'' \<and>
      URL req = APIBase p @ ''/service/'' @ ServiceID p @ ''/dns/record?page='' @ fmt_d k @
                ''&rowsPerPage=100'' \<and>
      (\<exists>ts. BasicAuth req =
         Some (APIKey p, calculateSignature env p ''GET''
                 (''/v2/service/'' @ ServiceID p @ ''/dns/record'') ts)))"

text \<open>
  A complete walk over the pages, from page \<open>k\<close>: every exchange but the last reported
  \<^verbatim>\<open>currentPage < totalPages\<close> and was followed by the request for the next page; the
  last reported \<^verbatim>\<open>currentPage >= totalPages\<close>.
\<close>

fun page_walk :: "'w env \<Rightarrow> Provider \<Rightarrow> int \<Rightarrow> (Request \<times> (string + Response)) list \<Rightarrow> bool" where
  "page_walk env p k [] = False"
| "page_walk env p k [e] =
     (list_request env p k (fst e) \<and>
      (\<exists>l. decoded env e = Some l \<and> CurrentPage l \<ge> TotalPages l))"
| "page_walk env p k (e # e' # es) =
     (list_request env p k (fst e) \<and>
      (\<exists>l. decoded env e = Some l \<and> CurrentPage l < TotalPages l) \<and>
      page_walk env p (k + 1) (e' # es))"

definition listed_items :: "'w env \<Rightarrow> Request \<times> (string + Response) \<Rightarrow> Item list" where
  "listed_items env e = (case decoded env e of None \<Rightarrow> [] | Some l \<Rightarrow> Data l)"

text \<open>
  The request carries the Basic-Auth pair of the API key and a signature computed, at some
  timestamp, over the request's method and the given path.
\<close>

definition signed_over :: "'w env \<Rightarrow> Provider \<Rightarrow> Request \<Rightarrow> string \<Rightarrow> bool" where
  "signed_over env p req path =
     (\<exists>ts. BasicAuth req = Some (APIKey p, calculateSignature env p (Method req) path ts))"

text \<open>
  The shape of every request the provider sends: the URL is the base, a path without
  version prefix and, for the listing, a query; the signature is over \<^verbatim>\<open>/v2\<close> followed by
  that same path, without the query.
\<close>

definition versioned_signature :: "'w env \<Rightarrow> Provider \<Rightarrow> Request \<Rightarrow> bool" where
  "versioned_signature env p req =
     (\<exists>path query.
        URL req = APIBase p @ path @ query \<and> take 3 path \<noteq> ''/v2'' \<and>
        signed_over env p req (''/v2'' @ path) \<and>
        (Method req = ''POST'' \<and> path = ''/service/'' @ ServiceID p @ ''/dns/record'' \<and> query = [] \<or>
         Method req = ''GET'' \<and> path = ''/service/'' @ ServiceID p @ ''/dns/record'' \<and>
           (\<exists>page. query = ''?page='' @ fmt_d page @ ''&rowsPerPage=100'') \<or>
         Method req = ''DELETE'' \<and>
           (\<exists>ident. path = ''/service/'' @ ServiceID p @ ''/dns/record/'' @ ident) \<and> query = []))"

text \<open>The provider's fields that requests are built from.\<close>

definition credentials :: "Provider \<Rightarrow> string \<times> string \<times> string \<times> string" where
  "credentials p = (APIKey p, APISecret p, APIBase p, ServiceID p)"

text \<open>The creation requests among logged exchanges, and the records the provider acts on.\<close>

definition posts :: "(Request \<times> (string + Response)) list \<Rightarrow> (Request \<times> (string + Response)) list" where
  "posts new = filter (\<lambda>e. Method (fst e) = ''POST'') new"

fun is_TXT_ptr :: "Record \<Rightarrow> bool" where
  "is_TXT_ptr (TXT_ptr a) = True"
| "is_TXT_ptr Other_record = False"

text \<open>The creation request for the record \<open>r\<close>, built when the clock of the world reads \<open>w\<close>.\<close>

definition create_request :: "'w env \<Rightarrow> Provider \<Rightarrow> TXT \<Rightarrow> 'w \<Rightarrow> Request" where
  "create_request env p r w =
     \<lparr>Method = ''POST'', URL = APIBase p @ ''/service/'' @ ServiceID p @ ''/dns/record'',
      Body = Some (create_body r),
      BasicAuth = Some (APIKey p, calculateSignature env p ''POST''
                          (''/v2/service/'' @ ServiceID p @ ''/dns/record'') (Unix env w)),
      Header = [(''X-Date'', Format env (Unix env w)), (''Content-Type'', ''application/json''),
                (''Accept'', ''application/json'')]\<rparr>"





text \<open>The state with the provider's \<^verbatim>\<open>Timeout\<close> field set to \<open>t\<close>.\<close>

definition with_Timeout :: "Duration \<Rightarrow> 'w state \<Rightarrow> 'w state" where
  "with_Timeout t st = st\<lparr>provider := (provider st)\<lparr>Timeout := t\<rparr>\<rparr>"

text \<open>
  Reading hexadecimal back: the value of a digit (lowercase letters for ten to fifteen)
  and the bytes of a string of digit pairs.
\<close>

definition digit_value :: "char \<Rightarrow> nat" where
  "digit_value c = (if c \<in> set ''0123456789'' then of_char c - 48 else of_char c - 87)"

fun hex_decode :: "string \<Rightarrow> 8 word list" where
  "hex_decode (a # b # cs) = word_of_nat (16 * digit_value a + digit_value b) # hex_decode cs"
| "hex_decode cs = []"

subsection \<open>The body of the creation request\<close>

text \<open>
  The time-to-live of the body as the specification words it, the duration truncated to
  whole seconds, and the body with that number in place of \<^verbatim>\<open>int(r.TTL.Seconds())\<close>.
\<close>

definition truncated_seconds :: "Duration \<Rightarrow> int" where
  "truncated_seconds d = sint d sdiv 1000000000"

definition interpolated_body :: "TXT \<Rightarrow> string" where
  "interpolated_body r =
     ''{\"type\":\"TXT\",\"name\":\"'' @ Name r @ ''\",\"content\":\"'' @ Text r @
     ''\",\"ttl\":'' @ fmt_d (truncated_seconds (TTL r)) @ ''}''"

text \<open>The negation of a float64, for the symmetry of \<^verbatim>\<open>Seconds\<close> in the sign of the duration.\<close>

fun float64_neg :: "float64 \<Rightarrow> float64" where
  "float64_neg (Float64 m e) = Float64 (- m) e"

subsection \<open>Well-formed JSON texts\<close>

text \<open>
  A recogniser of the JSON grammar of RFC 8259 over a string: white space, string
  literals with their escapes, numbers, the three literal names, objects and arrays.
\<close>

definition json_ws :: "char \<Rightarrow> bool" where
  "json_ws c = (c = CHR '' '' \<or> c = CHR 0x09 \<or> c = CHR 0x0A \<or> c = CHR 0x0D)"

definition json_skip :: "string \<Rightarrow> string" where
  "json_skip s = dropWhile json_ws s"

definition json_digit :: "char \<Rightarrow> bool" where
  "json_digit c = (c \<in> set ''0123456789'')"

definition json_hex :: "char \<Rightarrow> bool" where
  "json_hex c = (c \<in> set ''0123456789abcdefABCDEF'')"

text \<open>The rest of the input after a string literal whose opening quote has been read.\<close>

fun json_string :: "string \<Rightarrow> string option" where
  "json_string [] = None"
| "json_string (c # cs) =
     (if c = CHR 0x22 then Some cs
      else if c = CHR 0x5C then
        (case cs of
           [] \<Rightarrow> None
         | e # es \<Rightarrow>
             if e \<in> set [CHR 0x22, CHR 0x5C, CHR ''/'', CHR ''b'', CHR ''f'', CHR ''n'', CHR ''r'', CHR ''t'']
             then json_string es
             else if e = CHR ''u'' \<and> length es \<ge> 4 \<and> list_all json_hex (take 4 es)
             then json_string (drop 4 es)
             else None)
      else if (of_char c :: nat) < 0x20 then None
      else json_string cs)"

text \<open>The rest of the input after a number: an optional minus, an integer part without
  leading zero, an optional fraction, an optional exponent.\<close>

definition json_digits :: "string \<Rightarrow> string option" where
  "json_digits s = (if takeWhile json_digit s = [] then None else Some (dropWhile json_digit s))"

definition json_number :: "string \<Rightarrow> string option" where
  "json_number s =
     (let s1 = (case s of c # cs \<Rightarrow> if c = CHR ''-'' then cs else s | [] \<Rightarrow> s);
          int_part = (case s1 of
                        c # cs \<Rightarrow> if c = CHR ''0'' then Some cs else json_digits s1
                      | [] \<Rightarrow> None)
      in case int_part of
           None \<Rightarrow> None
         | Some s2 \<Rightarrow>
             (let frac = (case s2 of
                            c # cs \<Rightarrow> if c = CHR ''.'' then json_digits cs else Some s2
                          | [] \<Rightarrow> Some s2)
              in case frac of
                   None \<Rightarrow> None
                 | Some s3 \<Rightarrow>
                     (case s3 of
                        c # cs \<Rightarrow>
                          if c = CHR ''e'' \<or> c = CHR ''E''
                          then (case cs of
                                  d # ds \<Rightarrow> if d = CHR ''+'' \<or> d = CHR ''-'' then json_digits ds
                                            else json_digits cs
                                | [] \<Rightarrow> None)
                          else Some s3
                      | [] \<Rightarrow> Some s3)))"

definition json_literal :: "string \<Rightarrow> string \<Rightarrow> string option" where
  "json_literal lit s = (if take (length lit) s = lit then Some (drop (length lit) s) else None)"

text \<open>
  The rest of the input after one JSON value, after the members of an object and after the
  elements of an array (RFC 8259); the first argument bounds the number of nested calls.
\<close>

fun json_value :: "nat \<Rightarrow> string \<Rightarrow> string option"
  and json_members :: "nat \<Rightarrow> string \<Rightarrow> string option"
  and json_elements :: "nat \<Rightarrow> string \<Rightarrow> string option" where
  "json_value 0 s = None"
| "json_value (Suc n) [] = None"
| "json_value (Suc n) (c # cs) =
     (if c = CHR 0x22 then json_string cs
      else if c = CHR ''{'' then
        (case json_skip cs of
           [] \<Rightarrow> None
         | d # ds \<Rightarrow> if d = CHR ''}'' then Some ds else json_members n (d # ds))
      else if c = CHR ''['' then
        (case json_skip cs of
           [] \<Rightarrow> None
         | d # ds \<Rightarrow> if d = CHR '']'' then Some ds else json_elements n (d # ds))
      else if c = CHR ''t'' then json_literal ''true'' (c # cs)
      else if c = CHR ''f'' then json_literal ''false'' (c # cs)
      else if c = CHR ''n'' then json_literal ''null'' (c # cs)
      else json_number (c # cs))"
| "json_members 0 s = None"
| "json_members (Suc n) [] = None"
| "json_members (Suc n) (c # cs) =
     (if c \<noteq> CHR 0x22 then None
      else
        (case json_string cs of
           None \<Rightarrow> None
         | Some s1 \<Rightarrow>
             (case json_skip s1 of
                [] \<Rightarrow> None
              | d # ds \<Rightarrow>
                  if d \<noteq> CHR '':'' then None
                  else
                    (case json_value n (json_skip ds) of
                       None \<Rightarrow> None
                     | Some s2 \<Rightarrow>
                         (case json_skip s2 of
                            [] \<Rightarrow> None
                          | e # es \<Rightarrow>
                              if e = CHR '','' then json_members n (json_skip es)
                              else if e = CHR ''}'' then Some es
                              else None)))))"
| "json_elements 0 s = None"
| "json_elements (Suc n) s =
     (case json_value n s of
        None \<Rightarrow> None
      | Some s1 \<Rightarrow>
          (case json_skip s1 of
             [] \<Rightarrow> None
           | e # es \<Rightarrow>
               if e = CHR '','' then json_elements n (json_skip es)
               else if e = CHR '']'' then Some es
               else None))"

definition json_valid :: "string \<Rightarrow> bool" where
  "json_valid s =
     (case json_value (Suc (length s)) (json_skip s) of
        None \<Rightarrow> False
      | Some rest \<Rightarrow> json_skip rest = [])"

subsection \<open>A service that echoes the requested page\<close>

text \<open>
  A service whose listing has \<open>n\<close> pages and whose every response for page \<open>k\<close> echoes
  \<open>k\<close> as the current page.
\<close>

definition echo_server :: "'w env \<Rightarrow> Provider \<Rightarrow> int \<Rightarrow> bool" where
  "echo_server env p n =
     (\<forall>k \<in> {1..n}.
        NewRequest_error env ''GET''
          (APIBase p @ ''/service/'' @ ServiceID p @ ''/dns/record?page='' @ fmt_d k @
           ''&rowsPerPage=100'') = None \<and>
        (\<forall>c req w.
           Method req = ''GET'' \<and>
           URL req = APIBase p @ ''/service/'' @ ServiceID p @ ''/dns/record?page='' @ fmt_d k @
                     ''&rowsPerPage=100'' \<longrightarrow>
           (\<exists>resp w' l. Do env c req w = (Inr resp, w') \<and> StatusCode resp = 200 \<and>
              Decode env (RespBody resp) = Inr l \<and> CurrentPage l = k \<and> TotalPages l = n)))"

section \<open>A scripted service for concrete runs\<close>

text \<open>
  A small remote service to run the provider against: the listing has the given pages
  (page \<open>k\<close> answers with a body that the decoder maps to the \<open>k\<close>-th page), creation
  answers with the given status, deletion with 204. The clock is a counter.
\<close>

definition demo_provider :: Provider where
  "demo_provider =
     \<lparr>APIKey = ''key'', APISecret = ''s'', APIBase = ''https://rest.websupport.sk/v2'',
      ServiceID = ''42'', HTTPClient = None, Timeout = 0\<rparr>"

text \<open>A stand-in for the keyed hash: the bytes of the key and of the message.\<close>

definition demo_hmac :: "string \<Rightarrow> string \<Rightarrow> 8 word list" where
  "demo_hmac key msg = map of_char (key @ CHR ''|'' # msg)"

fun lookup_page :: "string \<Rightarrow> int \<Rightarrow> Item list list \<Rightarrow> int option" where
  "lookup_page url k [] = None"
| "lookup_page url k (pg # pgs) =
     (if url = APIBase demo_provider @ list_urlPath demo_provider k then Some k
      else lookup_page url (k + 1) pgs)"

definition demo_Do :: "int \<Rightarrow> Item list list \<Rightarrow> Client \<Rightarrow> Request \<Rightarrow> nat \<Rightarrow> (string + Response) \<times> nat" where
  "demo_Do post_status pages c req w =
     (if Method req = ''GET'' then
        (case lookup_page (URL req) 1 pages of
           Some k \<Rightarrow> (Inr \<lparr>StatusCode = 200, Status = ''200 OK'', RespBody = fmt_d k\<rparr>, w + 1)
         | None \<Rightarrow> (Inr \<lparr>StatusCode = 404, Status = ''404 Not Found'', RespBody = []\<rparr>, w + 1))
      else if Method req = ''POST'' then
        (Inr \<lparr>StatusCode = post_status, Status = fmt_d post_status, RespBody = ''{}''\<rparr>, w + 1)
      else (Inr \<lparr>StatusCode = 204, Status = ''204 No Content'', RespBody = []\<rparr>, w + 1))"

fun decode_page :: "string \<Rightarrow> int \<Rightarrow> int \<Rightarrow> Item list list \<Rightarrow> string + Listing" where
  "decode_page body k n [] = Inl ''unexpected end of JSON input''"
| "decode_page body k n (pg # pgs) =
     (if body = fmt_d k
      then Inr \<lparr>CurrentPage = k, TotalPages = n, TotalRecords = 0, Data = pg\<rparr>
      else decode_page body (k + 1) n pgs)"

definition demo_env :: "int \<Rightarrow> Item list list \<Rightarrow> nat env" where
  "demo_env post_status pages =
     \<lparr>hmac_sha1 = demo_hmac, NewRequest_error = (\<lambda>m u. None), Do = demo_Do post_status pages,
      Unix = int, Format = fmt_d, Sleep = (\<lambda>d w. w + 1),
      Decode = (\<lambda>body. decode_page body 1 (int (length pages)) pages)\<rparr>"

definition demo_state :: "Provider \<Rightarrow> heap \<Rightarrow> nat state" where
  "demo_state p h = \<lparr>provider = p, heap = h, world = 1000, log = []\<rparr>"

definition demo_heap :: heap where
  "demo_heap =
     [0 \<mapsto> \<lparr>Name = ''_acme-challenge'', TTL = 0, Text = ''tok'', ProviderData = any_nil\<rparr>,
      1 \<mapsto> \<lparr>Name = ''old'', TTL = 300 * Second, Text = ''x'', ProviderData = any_string ''7''\<rparr>]"

definition item1 :: Item where
  "item1 = \<lparr>ID = 7, item_Name = ''_acme-challenge.example.com.'', Type = ''TXT'', Content = ''tok'', item_TTL = 120\<rparr>"
definition item2 :: Item where
  "item2 = \<lparr>ID = 8, item_Name = ''www'', Type = ''A'', Content = ''1.2.3.4'', item_TTL = 600\<rparr>"

section \<open>Basic facts\<close>

lemma Do_request_cases:
  assumes "Do_request env req st = (r, st')"
  shows "provider st' = provider st \<and> heap st' = heap st \<and>
         ((r = Inl Panic \<and> HTTPClient (provider st) = None \<and> st' = st) \<or>
          (\<exists>c w'. HTTPClient (provider st) = Some c \<and>
             ((\<exists>err. Do env c req (world st) = (Inl err, w') \<and> r = Inl (Error err) \<and>
                 st' = st\<lparr>world := w', log := log st @ [(req, Inl err)]\<rparr>) \<or>
              (\<exists>resp. Do env c req (world st) = (Inr resp, w') \<and> r = Inr resp \<and>
                 st' = st\<lparr>world := w', log := log st @ [(req, Inr resp)]\<rparr>))))"
  using assms
  by (auto simp: Do_request_def split: option.splits prod.splits sum.splits)

lemma append_items_eq:
  "append_items acc items = acc @ map txt_of_item (filter (\<lambda>i. Type i = ''TXT'') items)"
  by (induction items arbitrary: acc) auto

lemma addAuthHeaders_fields:
  "Method (addAuthHeaders env p req m path w) = Method req"
  "URL (addAuthHeaders env p req m path w) = URL req"
  "Body (addAuthHeaders env p req m path w) = Body req"
  "BasicAuth (addAuthHeaders env p req m path w) =
     Some (APIKey p, calculateSignature env p m path (Unix env w))"
  by (simp_all add: addAuthHeaders_def Let_def)

lemma NewRequest_Inr:
  "NewRequest env m u b = Inr req \<Longrightarrow>
     NewRequest_error env m u = None \<and> Method req = m \<and> URL req = u \<and> Body req = b"
  by (auto simp: NewRequest_def split: option.splits)

lemma GetRecords_loop_frame:
  "GetRecords_loop env fuel page acc st = (res, st') \<Longrightarrow>
     provider st' = provider st \<and> heap st' = heap st"
proof (induction fuel arbitrary: page acc st)
  case 0
  then show ?case by simp
next
  case (Suc fuel)
  then show ?case
    by (auto simp: Let_def split: sum.splits prod.splits if_splits dest!: Do_request_cases)
qed

lemma GetRecords_loop_walk:
  "GetRecords_loop env fuel page acc st = (Some (Inr recs), st') \<Longrightarrow>
     \<exists>new. log st' = log st @ new \<and> page_walk env (provider st) page new \<and>
           length new \<le> fuel \<and>
           recs = acc @ map txt_of_item
                    (filter (\<lambda>i. Type i = ''TXT'') (concat (map (listed_items env) new)))"
proof (induction fuel arbitrary: page acc st)
  case 0
  then show ?case by simp
next
  case (Suc fuel)
  let ?p = "provider st"
  from Suc.prems obtain req where req: "NewRequest env ''GET'' (APIBase ?p @ list_urlPath ?p page) None = Inr req"
    by (auto simp: Let_def split: sum.splits)
  let ?req = "addAuthHeaders env ?p req ''GET'' (list_sigPath ?p) (world st)"
  from Suc.prems req obtain resp st1 where d: "Do_request env ?req st = (Inr resp, st1)"
    by (auto simp: Let_def split: sum.splits prod.splits)
  from Suc.prems req d have ok: "StatusCode resp = 200"
    by (auto simp: Let_def split: if_splits)
  from Suc.prems req d ok obtain l where l: "Decode env (RespBody resp) = Inr l"
    by (auto simp: Let_def split: sum.splits)
  from Do_request_cases[OF d] have st1: "provider st1 = ?p" "log st1 = log st @ [(?req, Inr resp)]"
    by auto
  have lr: "list_request env ?p page ?req"
    using NewRequest_Inr[OF req]
    by (auto simp: list_request_def addAuthHeaders_fields list_urlPath_def list_sigPath_def)
  have dec: "decoded env (?req, Inr resp) = Some l"
    by (simp add: decoded_def ok l)
  then have li: "listed_items env (?req, Inr resp) = Data l"
    by (simp add: listed_items_def)
  show ?case
  proof (cases "CurrentPage l \<ge> TotalPages l")
    case True
    with Suc.prems req d ok l have "recs = append_items acc (Data l)" "st' = st1"
      by (auto simp: Let_def)
    then show ?thesis
      using st1 lr dec li True
      by (intro exI[of _ "[(?req, Inr resp)]"]) (auto simp: append_items_eq)
  next
    case False
    with Suc.prems req d ok l
    have "GetRecords_loop env fuel (page + 1) (append_items acc (Data l)) st1 = (Some (Inr recs), st')"
      by (auto simp: Let_def)
    from Suc.IH[OF this] obtain new where new:
      "log st' = log st1 @ new" "page_walk env (provider st1) (page + 1) new" "length new \<le> fuel"
      "recs = append_items acc (Data l) @ map txt_of_item
                    (filter (\<lambda>i. Type i = ''TXT'') (concat (map (listed_items env) new)))"
      by blast
    from new(2) obtain e es where es: "new = e # es" by (cases new) auto
    show ?thesis
      using st1 lr dec li False new es
      by (intro exI[of _ "(?req, Inr resp) # new"]) (auto simp: append_items_eq)
  qed
qed


lemma ensureClient_fields:
  "APIKey (ensureClient p) = APIKey p"
  "APISecret (ensureClient p) = APISecret p"
  "APIBase (ensureClient p) = APIBase p"
  "ServiceID (ensureClient p) = ServiceID p"
  "HTTPClient (ensureClient p) \<noteq> None"
  by (simp_all add: ensureClient_def Let_def)

lemma GetRecords_loop_running:
  "GetRecords_loop env fuel page acc st = (None, st') \<Longrightarrow>
     \<exists>new. log st' = log st @ new \<and> length new = fuel \<and>
           (\<forall>e \<in> set new. \<exists>l. decoded env e = Some l \<and> CurrentPage l < TotalPages l)"
proof (induction fuel arbitrary: page acc st)
  case 0
  then show ?case by simp
next
  case (Suc fuel)
  let ?p = "provider st"
  from Suc.prems obtain req where req: "NewRequest env ''GET'' (APIBase ?p @ list_urlPath ?p page) None = Inr req"
    by (auto simp: Let_def split: sum.splits)
  let ?req = "addAuthHeaders env ?p req ''GET'' (list_sigPath ?p) (world st)"
  from Suc.prems req obtain resp st1 where d: "Do_request env ?req st = (Inr resp, st1)"
    by (auto simp: Let_def split: sum.splits prod.splits)
  from Suc.prems req d have ok: "StatusCode resp = 200"
    by (auto simp: Let_def split: if_splits)
  from Suc.prems req d ok obtain l where l: "Decode env (RespBody resp) = Inr l"
    by (auto simp: Let_def split: sum.splits)
  from Suc.prems req d ok l have more: "CurrentPage l < TotalPages l"
    by (auto simp: Let_def split: if_splits)
  from Do_request_cases[OF d] have st1: "log st1 = log st @ [(?req, Inr resp)]"
    by auto
  have dec: "decoded env (?req, Inr resp) = Some l"
    by (simp add: decoded_def ok l)
  from Suc.prems req d ok l more
  have "GetRecords_loop env fuel (page + 1) (append_items acc (Data l)) st1 = (None, st')"
    by (auto simp: Let_def)
  from Suc.IH[OF this] obtain new where new:
    "log st' = log st1 @ new" "length new = fuel"
    "\<forall>e \<in> set new. \<exists>l. decoded env e = Some l \<and> CurrentPage l < TotalPages l"
    by blast
  show ?case
    using st1 dec more new
    by (intro exI[of _ "(?req, Inr resp) # new"]) auto
qed

lemma GetRecords_loop_echo:
  assumes echo: "echo_server env p n" and client: "HTTPClient p = Some c"
  shows "provider st = p \<Longrightarrow> 1 \<le> page \<Longrightarrow> page \<le> n \<Longrightarrow> nat (n - page) < fuel \<Longrightarrow>
         \<exists>recs st' new. GetRecords_loop env fuel page acc st = (Some (Inr recs), st') \<and>
            log st' = log st @ new \<and> length new = Suc (nat (n - page))"
proof (induction fuel arbitrary: page acc st)
  case 0
  then show ?case by simp
next
  case (Suc fuel)
  let ?url = "APIBase p @ list_urlPath p page"
  from echo Suc.prems(2,3) have nr: "NewRequest_error env ''GET'' ?url = None"
    by (simp add: echo_server_def list_urlPath_def)
  define req0 where "req0 = \<lparr>Method = ''GET'', URL = ?url, Body = None, BasicAuth = None, Header = []\<rparr>"
  have req: "NewRequest env ''GET'' ?url None = Inr req0"
    by (simp add: NewRequest_def nr req0_def)
  let ?req = "addAuthHeaders env p req0 ''GET'' (list_sigPath p) (world st)"
  have "Method ?req = ''GET'' \<and> URL ?req = ?url"
    by (simp add: addAuthHeaders_fields req0_def)
  with echo Suc.prems(2,3) obtain resp w' l where
    d: "Do env c ?req (world st) = (Inr resp, w')" and ok: "StatusCode resp = 200" and
    l: "Decode env (RespBody resp) = Inr l" and cur: "CurrentPage l = page" and tot: "TotalPages l = n"
    unfolding echo_server_def list_urlPath_def
    by (metis atLeastAtMost_iff)
  define st1 where "st1 = st\<lparr>world := w', log := log st @ [(?req, Inr resp)]\<rparr>"
  have dr: "Do_request env ?req st = (Inr resp, st1)"
    using Suc.prems(1) client d by (simp add: Do_request_def st1_def)
  show ?case
  proof (cases "page = n")
    case True
    then have "GetRecords_loop env (Suc fuel) page acc st = (Some (Inr (append_items acc (Data l))), st1)"
      using Suc.prems(1) req dr ok l cur tot by (simp add: Let_def)
    then show ?thesis
      using True by (simp add: st1_def)
  next
    case False
    with Suc.prems have lt: "page < n" by simp
    then have step: "GetRecords_loop env (Suc fuel) page acc st =
                 GetRecords_loop env fuel (page + 1) (append_items acc (Data l)) st1"
      using Suc.prems(1) req dr ok l cur tot by (simp add: Let_def)
    have "provider st1 = p" using Suc.prems(1) by (simp add: st1_def)
    moreover have "1 \<le> page + 1" "page + 1 \<le> n" "nat (n - (page + 1)) < fuel"
      using Suc.prems lt by auto
    ultimately obtain recs st' new where r:
      "GetRecords_loop env fuel (page + 1) (append_items acc (Data l)) st1 = (Some (Inr recs), st')"
      "log st' = log st1 @ new" "length new = Suc (nat (n - (page + 1)))"
      using Suc.IH by blast
    have "length ((?req, Inr resp) # new) = Suc (nat (n - page))"
      using r(3) lt by simp
    then show ?thesis
      using step r(1,2) unfolding st1_def
      by (intro exI[of _ recs] exI[of _ st'] exI[of _ "(?req, Inr resp) # new"]) simp
  qed
qed


text \<open>Evaluation of the decimal formatter on literals (never on a variable).\<close>

lemma digits10_eval:
  "digits10 0 = ''0''"
  "digits10 (Suc 0) = ''1''"
  "digits10 (numeral k) =
     (if numeral k < (10::nat) then [digit_char (numeral k)]
      else digits10 (numeral k div 10) @ [digit_char (numeral k mod 10)])"
  by (simp_all add: digits10.simps[of 0] digits10.simps[of "Suc 0"] digits10.simps[of "numeral k"]
      digit_char_def)

lemmas demo_defs = demo_provider_def demo_Do_def demo_env_def demo_state_def item1_def item2_def
  GetRecords_def ensureClient_def NewRequest_def Do_request_def addAuthHeaders_def
  list_urlPath_def list_sigPath_def fmt_d_def digits10_eval digit_char_def hextable_def txt_of_item_def Second_def

lemma list_request_cong:
  "APIKey p' = APIKey p \<Longrightarrow> APISecret p' = APISecret p \<Longrightarrow> APIBase p' = APIBase p \<Longrightarrow>
   ServiceID p' = ServiceID p \<Longrightarrow> list_request env p' k req = list_request env p k req"
  by (simp add: list_request_def calculateSignature_def)

lemma page_walk_cong:
  "APIKey p' = APIKey p \<Longrightarrow> APISecret p' = APISecret p \<Longrightarrow> APIBase p' = APIBase p \<Longrightarrow>
   ServiceID p' = ServiceID p \<Longrightarrow> page_walk env p' k new = page_walk env p k new"
proof (induction env p k new rule: page_walk.induct)
  case (1 env p k)
  then show ?case by simp
next
  case (2 env p k e)
  then show ?case by (simp add: list_request_cong[of p' p])
next
  case (3 env p k e e' es)
  then show ?case by (simp add: list_request_cong[of p' p])
qed

lemma echo_server_cong:
  "APIBase p' = APIBase p \<Longrightarrow> ServiceID p' = ServiceID p \<Longrightarrow>
   echo_server env p' n = echo_server env p n"
  by (simp add: echo_server_def)

lemma credentials_ensureClient: "credentials (ensureClient p) = credentials p"
  by (simp add: credentials_def ensureClient_fields)

lemma versioned_signature_cong:
  "credentials p' = credentials p \<Longrightarrow> versioned_signature env p' req = versioned_signature env p req"
  by (simp add: versioned_signature_def signed_over_def calculateSignature_def credentials_def)

lemma list_request_versioned:
  "list_request env p k req \<Longrightarrow> versioned_signature env p req"
  unfolding list_request_def versioned_signature_def signed_over_def
  by (intro exI[of _ "''/service/'' @ ServiceID p @ ''/dns/record''"]
            exI[of _ "''?page='' @ fmt_d k @ ''&rowsPerPage=100''"]) auto

lemma GetRecords_loop_step:
  assumes "GetRecords_loop env (Suc fuel) page acc st = (res, st')"
  shows "st' = st \<or>
         (\<exists>req r st1. list_request env (provider st) page req \<and> provider st1 = provider st \<and>
            log st1 = log st @ [(req, r)] \<and>
            (st' = st1 \<or> (\<exists>acc'. GetRecords_loop env fuel (page + 1) acc' st1 = (res, st'))))"
proof (cases "NewRequest env ''GET'' (APIBase (provider st) @ list_urlPath (provider st) page) None")
  case (Inl err)
  with assms show ?thesis by (simp add: Let_def)
next
  case (Inr req)
  let ?p = "provider st"
  let ?req = "addAuthHeaders env ?p req ''GET'' (list_sigPath ?p) (world st)"
  have lr: "list_request env ?p page ?req"
    using NewRequest_Inr[OF Inr]
    by (auto simp: list_request_def addAuthHeaders_fields list_urlPath_def list_sigPath_def)
  obtain r st1 where d: "Do_request env ?req st = (r, st1)"
    by (cases "Do_request env ?req st")
  from Do_request_cases[OF d] consider
    "st1 = st" "r = Inl Panic" |
    err where "r = Inl (Error err)" "provider st1 = ?p" "log st1 = log st @ [(?req, Inl err)]" |
    resp where "r = Inr resp" "provider st1 = ?p" "log st1 = log st @ [(?req, Inr resp)]"
    by auto
  then show ?thesis
  proof cases
    case 1
    with assms Inr d show ?thesis by (simp add: Let_def)
  next
    case 2
    with assms Inr d have "st' = st1" by (simp add: Let_def)
    with 2 lr show ?thesis by blast
  next
    case 3
    with assms Inr d have
      "st' = st1 \<or> (\<exists>acc'. GetRecords_loop env fuel (page + 1) acc' st1 = (res, st'))"
      by (auto simp: Let_def split: if_splits sum.splits)
    with 3 lr show ?thesis by blast
  qed
qed

lemma GetRecords_loop_log:
  "GetRecords_loop env fuel page acc st = (res, st') \<Longrightarrow>
     \<exists>new. log st' = log st @ new \<and> (\<forall>e \<in> set new. versioned_signature env (provider st) (fst e))"
proof (induction fuel arbitrary: page acc st)
  case 0
  then show ?case by simp
next
  case (Suc fuel)
  from GetRecords_loop_step[OF Suc.prems] consider "st' = st" |
    req r st1 where "list_request env (provider st) page req" "provider st1 = provider st"
      "log st1 = log st @ [(req, r)]" "st' = st1" |
    req r st1 acc' where "list_request env (provider st) page req" "provider st1 = provider st"
      "log st1 = log st @ [(req, r)]" "GetRecords_loop env fuel (page + 1) acc' st1 = (res, st')"
    by blast
  then show ?case
  proof cases
    case 1
    then show ?thesis by simp
  next
    case 2
    then show ?thesis
      by (intro exI[of _ "[(req, r)]"]) (simp add: list_request_versioned)
  next
    case 3
    from Suc.IH[OF 3(4)] obtain new where
      "log st' = log st1 @ new" "\<forall>e \<in> set new. versioned_signature env (provider st1) (fst e)"
      by blast
    with 3 show ?thesis
      by (intro exI[of _ "(req, r) # new"]) (simp add: list_request_versioned)
  qed
qed

lemma GetRecords_log:
  assumes "GetRecords env fuel zone st = (res, st')"
  shows "credentials (provider st') = credentials (provider st) \<and> heap st' = heap st \<and>
         (\<exists>new. log st' = log st @ new \<and>
            (\<forall>e \<in> set new. versioned_signature env (provider st) (fst e)))"
proof (cases "ServiceID (provider st) = []")
  case True
  with assms show ?thesis
    by (auto simp: GetRecords_def Let_def ensureClient_fields credentials_ensureClient)
next
  case False
  let ?st = "st\<lparr>provider := ensureClient (provider st)\<rparr>"
  from False assms have g: "GetRecords_loop env fuel 1 [] ?st = (res, st')"
    by (simp add: GetRecords_def Let_def ensureClient_fields)
  from GetRecords_loop_frame[OF g] GetRecords_loop_log[OF g] show ?thesis
    by (simp add: credentials_ensureClient versioned_signature_cong[OF credentials_ensureClient])
qed


lemma create_request_versioned:
  "NewRequest env ''POST'' (APIBase p @ create_urlPath p) b = Inr req \<Longrightarrow>
     versioned_signature env p (addAuthHeaders env p req ''POST'' (create_sigPath p) w)"
  unfolding versioned_signature_def signed_over_def
  by (intro exI[of _ "''/service/'' @ ServiceID p @ ''/dns/record''"] exI[of _ "[]"])
     (auto simp: addAuthHeaders_fields create_urlPath_def create_sigPath_def dest!: NewRequest_Inr)

lemma delete_request_versioned:
  "NewRequest env ''DELETE'' (APIBase p @ delete_urlPath p ident) b = Inr req \<Longrightarrow>
     versioned_signature env p (addAuthHeaders env p req ''DELETE'' (delete_sigPath p ident) w)"
  unfolding versioned_signature_def signed_over_def
  by (intro exI[of _ "''/service/'' @ ServiceID p @ ''/dns/record/'' @ ident"] exI[of _ "[]"])
     (auto simp: addAuthHeaders_fields delete_urlPath_def delete_sigPath_def dest!: NewRequest_Inr)

lemma Do_request_log:
  assumes "Do_request env req st = (r, st')" and "versioned_signature env (provider st) req"
  shows "provider st' = provider st \<and> heap st' = heap st \<and>
         (\<exists>new. log st' = log st @ new \<and>
            (\<forall>e \<in> set new. versioned_signature env (provider st) (fst e)))"
proof -
  from Do_request_cases[OF assms(1)] consider "st' = st" |
    r' where "provider st' = provider st" "heap st' = heap st" "log st' = log st @ [(req, r')]"
    by auto
  then show ?thesis
  proof cases
    case 1
    then show ?thesis by simp
  next
    case 2
    with assms(2) show ?thesis
      by (intro conjI exI[of _ "[(req, r')]"]) simp_all
  qed
qed

lemma AppendRecords_body_log:
  assumes "AppendRecords_body env fuel zone a st = (it, st')"
  shows "credentials (provider st') = credentials (provider st) \<and>
         (\<exists>new. log st' = log st @ new \<and>
            (\<forall>e \<in> set new. versioned_signature env (provider st) (fst e)))"
proof (cases "heap st a")
  case None
  with assms show ?thesis by (simp add: AppendRecords_body_def)
next
  case (Some r0)
  define r where "r = default_TTL r0"
  define st0 where "st0 = st\<lparr>heap := (heap st)(a \<mapsto> r)\<rparr>"
  let ?p = "provider st"
  have st0: "provider st0 = ?p" "log st0 = log st" "world st0 = world st"
    by (simp_all add: st0_def)
  show ?thesis
  proof (cases "NewRequest env ''POST'' (APIBase ?p @ create_urlPath ?p) (Some (create_body r))")
    case (Inl err)
    with assms Some show ?thesis
      by (auto simp: AppendRecords_body_def Let_def r_def)
  next
    case (Inr req)
    let ?req = "addAuthHeaders env ?p req ''POST'' (create_sigPath ?p) (world st)"
    obtain x st1 where d: "Do_request env ?req st0 = (x, st1)"
      by (cases "Do_request env ?req st0")
    from Do_request_log[OF d] create_request_versioned[OF Inr] st0 obtain new1 where st1:
      "provider st1 = ?p" "log st1 = log st @ new1"
      "\<forall>e \<in> set new1. versioned_signature env ?p (fst e)"
      by auto
    let ?st2 = "st1\<lparr>world := Sleep env Second (world st1)\<rparr>"
    obtain g st3 where g: "GetRecords env fuel zone ?st2 = (g, st3)"
      by (cases "GetRecords env fuel zone ?st2")
    from GetRecords_log[OF g] st1 obtain new2 where st3:
      "credentials (provider st3) = credentials ?p" "log st3 = (log st @ new1) @ new2"
      "\<forall>e \<in> set new2. versioned_signature env ?p (fst e)"
      by auto
    from assms Some Inr d g have "(log st' = log st1 \<and> provider st' = provider st1) \<or>
        (log st' = log st3 \<and> provider st' = provider st3)"
      by (auto simp: AppendRecords_body_def Let_def r_def[symmetric] st0_def[symmetric] st0
          split: sum.splits if_splits option.splits)
    then show ?thesis
    proof
      assume "log st' = log st1 \<and> provider st' = provider st1"
      with st1 show ?thesis by auto
    next
      assume "log st' = log st3 \<and> provider st' = provider st3"
      with st1 st3 show ?thesis
        by (intro conjI exI[of _ "new1 @ new2"]) auto
    qed
  qed
qed

lemma AppendRecords_loop_log:
  "AppendRecords_loop env fuel zone recs created st = (res, st') \<Longrightarrow>
     credentials (provider st') = credentials (provider st) \<and>
     (\<exists>new. log st' = log st @ new \<and>
        (\<forall>e \<in> set new. versioned_signature env (provider st) (fst e)))"
proof (induction recs arbitrary: created st)
  case Nil
  then show ?case by simp
next
  case (Cons rec recs)
  show ?case
  proof (cases rec)
    case Other_record
    with Cons show ?thesis by simp
  next
    case (TXT_ptr a)
    obtain it st1 where b: "AppendRecords_body env fuel zone a st = (it, st1)"
      by (cases "AppendRecords_body env fuel zone a st")
    from AppendRecords_body_log[OF b] obtain new1 where st1:
      "credentials (provider st1) = credentials (provider st)" "log st1 = log st @ new1"
      "\<forall>e \<in> set new1. versioned_signature env (provider st) (fst e)"
      by auto
    from Cons.prems TXT_ptr b consider "st' = st1" |
      created' where "AppendRecords_loop env fuel zone recs created' st1 = (res, st')"
      by (cases it) auto
    then show ?thesis
    proof cases
      case 1
      with st1 show ?thesis by auto
    next
      case 2
      from Cons.IH[OF 2] obtain new2 where
        "credentials (provider st') = credentials (provider st1)" "log st' = log st1 @ new2"
        "\<forall>e \<in> set new2. versioned_signature env (provider st1) (fst e)"
        by auto
      with st1 show ?thesis
        by (intro conjI exI[of _ "new1 @ new2"])
           (auto simp: versioned_signature_cong[OF st1(1)])
    qed
  qed
qed


lemma resolve_id_log:
  assumes "resolve_id env fuel zone r st = (x, st')"
  shows "credentials (provider st') = credentials (provider st) \<and> heap st' = heap st \<and>
         (\<exists>new. log st' = log st @ new \<and>
            (\<forall>e \<in> set new. versioned_signature env (provider st) (fst e)))"
proof -
  obtain g st1 where g: "GetRecords env fuel zone st = (g, st1)"
    by (cases "GetRecords env fuel zone st")
  from assms g have "st' = st \<or> st' = st1"
    by (auto simp: resolve_id_def Let_def split: any.splits if_splits option.splits sum.splits)
  with GetRecords_log[OF g] show ?thesis
    by auto
qed

lemma DeleteRecords_body_log:
  assumes "DeleteRecords_body env fuel zone a st = (it, st')"
  shows "credentials (provider st') = credentials (provider st) \<and> heap st' = heap st \<and>
         (\<exists>new. log st' = log st @ new \<and>
            (\<forall>e \<in> set new. versioned_signature env (provider st) (fst e)))"
proof (cases "heap st a")
  case None
  with assms show ?thesis by (simp add: DeleteRecords_body_def)
next
  case (Some r)
  obtain x st1 where x: "resolve_id env fuel zone r st = (x, st1)"
    by (cases "resolve_id env fuel zone r st")
  from resolve_id_log[OF x] obtain new1 where st1:
    "credentials (provider st1) = credentials (provider st)" "heap st1 = heap st"
    "log st1 = log st @ new1" "\<forall>e \<in> set new1. versioned_signature env (provider st) (fst e)"
    by auto
  have fin: ?thesis if "st' = st1"
    using that st1 by auto
  show ?thesis
  proof (cases x)
    case None
    with assms Some x show ?thesis by (intro fin) (simp add: DeleteRecords_body_def)
  next
    case outer: (Some y)
    show ?thesis
    proof (cases y)
      case None
      with assms Some x outer show ?thesis by (intro fin) (simp add: DeleteRecords_body_def)
    next
      case inner: (Some ident)
      let ?p = "provider st1"
      show ?thesis
      proof (cases "NewRequest env ''DELETE'' (APIBase ?p @ delete_urlPath ?p ident) None")
        case (Inl err)
        with assms Some x outer inner show ?thesis
          by (intro fin) (simp add: DeleteRecords_body_def Let_def)
      next
        case (Inr req)
        let ?req = "addAuthHeaders env ?p req ''DELETE'' (delete_sigPath ?p ident) (world st1)"
        obtain z st2 where d: "Do_request env ?req st1 = (z, st2)"
          by (cases "Do_request env ?req st1")
        from Do_request_log[OF d delete_request_versioned[OF Inr]] obtain new2 where st2:
          "provider st2 = ?p" "heap st2 = heap st1" "log st2 = log st1 @ new2"
          "\<forall>e \<in> set new2. versioned_signature env ?p (fst e)"
          by auto
        from assms Some x outer inner Inr d have "st' = st2"
          by (auto simp: DeleteRecords_body_def Let_def split: sum.splits if_splits)
        with st1 st2 show ?thesis
          by (intro conjI exI[of _ "new1 @ new2"])
             (auto simp: versioned_signature_cong[OF st1(1)])
      qed
    qed
  qed
qed

lemma DeleteRecords_loop_log:
  "DeleteRecords_loop env fuel zone recs deleted st = (res, st') \<Longrightarrow>
     credentials (provider st') = credentials (provider st) \<and> heap st' = heap st \<and>
     (\<exists>new. log st' = log st @ new \<and>
        (\<forall>e \<in> set new. versioned_signature env (provider st) (fst e)))"
proof (induction recs arbitrary: deleted st)
  case Nil
  then show ?case by simp
next
  case (Cons rec recs)
  show ?case
  proof (cases rec)
    case Other_record
    with Cons show ?thesis by simp
  next
    case (TXT_ptr a)
    obtain it st1 where b: "DeleteRecords_body env fuel zone a st = (it, st1)"
      by (cases "DeleteRecords_body env fuel zone a st")
    from DeleteRecords_body_log[OF b] obtain new1 where st1:
      "credentials (provider st1) = credentials (provider st)" "heap st1 = heap st"
      "log st1 = log st @ new1"
      "\<forall>e \<in> set new1. versioned_signature env (provider st) (fst e)"
      by auto
    from Cons.prems TXT_ptr b consider "st' = st1" |
      deleted' where "DeleteRecords_loop env fuel zone recs deleted' st1 = (res, st')"
      by (cases it) auto
    then show ?thesis
    proof cases
      case 1
      with st1 show ?thesis by auto
    next
      case 2
      from Cons.IH[OF 2] obtain new2 where
        "credentials (provider st') = credentials (provider st1)" "heap st' = heap st1"
        "log st' = log st1 @ new2"
        "\<forall>e \<in> set new2. versioned_signature env (provider st1) (fst e)"
        by auto
      with st1 show ?thesis
        by (intro conjI exI[of _ "new1 @ new2"])
           (auto simp: versioned_signature_cong[OF st1(1)])
    qed
  qed
qed

lemma GetRecords_loop_only_GET:
  "GetRecords_loop env fuel page acc st = (res, st') \<Longrightarrow> log st' = log st @ new \<Longrightarrow>
     \<forall>e \<in> set new. Method (fst e) = ''GET''"
proof (induction fuel arbitrary: page acc st new)
  case 0
  then show ?case by simp
next
  case (Suc fuel)
  from GetRecords_loop_step[OF Suc.prems(1)] consider "st' = st" |
    req r st1 where "list_request env (provider st) page req"
      "log st1 = log st @ [(req, r)]" "st' = st1" |
    req r st1 acc' where "list_request env (provider st) page req"
      "log st1 = log st @ [(req, r)]" "GetRecords_loop env fuel (page + 1) acc' st1 = (res, st')"
    by blast
  then show ?case
  proof cases
    case 1
    with Suc.prems(2) show ?thesis by simp
  next
    case 2
    with Suc.prems(2) show ?thesis by (auto simp: list_request_def)
  next
    case 3
    from GetRecords_loop_log[OF 3(3)] obtain new2 where n2: "log st' = log st1 @ new2"
      by blast
    from Suc.IH[OF 3(3) n2] have "\<forall>e \<in> set new2. Method (fst e) = ''GET''" .
    moreover from n2 3(2) Suc.prems(2) have "new = (req, r) # new2" by simp
    ultimately show ?thesis using 3(1) by (auto simp: list_request_def)
  qed
qed

lemma GetRecords_only_GET:
  assumes "GetRecords env fuel zone st = (res, st')" and "log st' = log st @ new"
  shows "\<forall>e \<in> set new. Method (fst e) = ''GET''"
proof (cases "ServiceID (provider st) = []")
  case True
  with assms show ?thesis
    by (auto simp: GetRecords_def Let_def ensureClient_fields)
next
  case False
  let ?st = "st\<lparr>provider := ensureClient (provider st)\<rparr>"
  from False assms have g: "GetRecords_loop env fuel 1 [] ?st = (res, st')"
    by (simp add: GetRecords_def Let_def ensureClient_fields)
  from GetRecords_loop_only_GET[OF g] assms(2) show ?thesis
    by simp
qed

lemma posts_GET: "\<forall>e \<in> set new. Method (fst e) = ''GET'' \<Longrightarrow> posts new = []"
  by (auto simp: posts_def filter_empty_conv)

lemma posts_append: "posts (xs @ ys) = posts xs @ posts ys"
  by (simp add: posts_def)

lemma NewRequest_create:
  "NewRequest_error env ''POST'' (APIBase p @ create_urlPath p) = None \<Longrightarrow>
   \<exists>req. NewRequest env ''POST'' (APIBase p @ create_urlPath p) (Some (create_body r)) = Inr req \<and>
     addAuthHeaders env p req ''POST'' (create_sigPath p) w = create_request env p r w"
  by (simp add: NewRequest_def addAuthHeaders_def create_request_def create_urlPath_def
      create_sigPath_def Let_def)

text \<open>The outcomes of one iteration, by what the creation request met.\<close>

lemma AppendRecords_body_cases:
  assumes "AppendRecords_body env fuel zone a st = (it, st')"
  obtains
    (nil) "heap st a = None" "it = Failed Panic" "st' = st"
  | (bad_request) r0 err where "heap st a = Some r0" "it = Failed (Error err)"
      "st' = st\<lparr>heap := (heap st)(a \<mapsto> default_TTL r0)\<rparr>"
  | (no_client) r0 where "heap st a = Some r0" "it = Failed Panic"
      "st' = st\<lparr>heap := (heap st)(a \<mapsto> default_TTL r0)\<rparr>"
  | (transport) r0 c err w' where "heap st a = Some r0" "HTTPClient (provider st) = Some c"
      "Do env c (create_request env (provider st) (default_TTL r0) (world st)) (world st) = (Inl err, w')"
      "it = Failed (Error err)"
      "st' = st\<lparr>heap := (heap st)(a \<mapsto> default_TTL r0), world := w',
                 log := log st @ [(create_request env (provider st) (default_TTL r0) (world st), Inl err)]\<rparr>"
  | (status) r0 c resp w' where "heap st a = Some r0" "HTTPClient (provider st) = Some c"
      "Do env c (create_request env (provider st) (default_TTL r0) (world st)) (world st) = (Inr resp, w')"
      "StatusCode resp \<noteq> 204"
      "it = Failed (Error (''failed to create record: '' @ Status resp @ '', body: '' @ RespBody resp))"
      "st' = st\<lparr>heap := (heap st)(a \<mapsto> default_TTL r0), world := w',
                 log := log st @ [(create_request env (provider st) (default_TTL r0) (world st), Inr resp)]\<rparr>"
  | (created) r0 c resp w' g st2 where "heap st a = Some r0" "HTTPClient (provider st) = Some c"
      "Do env c (create_request env (provider st) (default_TTL r0) (world st)) (world st) = (Inr resp, w')"
      "StatusCode resp = 204"
      "GetRecords env fuel zone
         (st\<lparr>heap := (heap st)(a \<mapsto> default_TTL r0),
             log := log st @ [(create_request env (provider st) (default_TTL r0) (world st), Inr resp)],
             world := Sleep env Second w'\<rparr>)
         = (g, st2)"
      "(g = None \<and> it = Unfinished \<and> st' = st2) \<or>
       (\<exists>err. g = Some (Inl err) \<and> it = Completed \<and> st' = st2) \<or>
       (\<exists>allRecs. g = Some (Inr allRecs) \<and> it = Completed \<and>
          st' = st2\<lparr>heap := (heap st2)(a \<mapsto>
                   copy_ProviderData zone (TrimSuffix (Name (default_TTL r0)) ''.'')
                     (default_TTL r0) allRecs)\<rparr>)"
proof (cases "heap st a")
  case None
  with assms have "it = Failed Panic" "st' = st"
    by (simp_all add: AppendRecords_body_def)
  with None show ?thesis by (rule nil)
next
  case (Some r0)
  let ?r = "default_TTL r0"
  let ?st0 = "st\<lparr>heap := (heap st)(a \<mapsto> ?r)\<rparr>"
  let ?p = "provider st"
  note unfold = AppendRecords_body_def Let_def
  show ?thesis
  proof (cases "NewRequest_error env ''POST'' (APIBase ?p @ create_urlPath ?p)")
    case (Some err)
    with assms \<open>heap st a = Some r0\<close>
    have "it = Failed (Error err)" "st' = ?st0"
      by (auto simp: unfold NewRequest_def)
    with \<open>heap st a = Some r0\<close> show ?thesis by (rule bad_request)
  next
    case None
    from NewRequest_create[OF None, of ?r "world st"] obtain req where
      req: "NewRequest env ''POST'' (APIBase ?p @ create_urlPath ?p) (Some (create_body ?r)) = Inr req"
           "addAuthHeaders env ?p req ''POST'' (create_sigPath ?p) (world st) =
              create_request env ?p ?r (world st)"
      by blast
    let ?req = "create_request env ?p ?r (world st)"
    show ?thesis
    proof (cases "HTTPClient ?p")
      case None
      with assms \<open>heap st a = Some r0\<close> req
      have "it = Failed Panic" "st' = ?st0"
        by (auto simp: unfold Do_request_def)
      with \<open>heap st a = Some r0\<close> show ?thesis by (rule no_client)
    next
      case (Some c)
      obtain x w' where d: "Do env c ?req (world st) = (x, w')"
        by (cases "Do env c ?req (world st)")
      show ?thesis
      proof (cases x)
        case (Inl err)
        with assms \<open>heap st a = Some r0\<close> req Some d
        have "it = Failed (Error err)"
          "st' = st\<lparr>heap := (heap st)(a \<mapsto> ?r), world := w', log := log st @ [(?req, Inl err)]\<rparr>"
          by (auto simp: unfold Do_request_def)
        with \<open>heap st a = Some r0\<close> Some d[unfolded Inl] show ?thesis by (rule transport)
      next
        case (Inr resp)
        show ?thesis
        proof (cases "StatusCode resp = 204")
          case False
          with assms \<open>heap st a = Some r0\<close> req Some d Inr
          have "it = Failed (Error (''failed to create record: '' @ Status resp @ '', body: '' @
                                    RespBody resp))"
            "st' = st\<lparr>heap := (heap st)(a \<mapsto> ?r), world := w', log := log st @ [(?req, Inr resp)]\<rparr>"
            by (auto simp: unfold Do_request_def)
          with \<open>heap st a = Some r0\<close> Some d[unfolded Inr] False show ?thesis by (rule status)
        next
          case True
          let ?st1 = "st\<lparr>heap := (heap st)(a \<mapsto> ?r), log := log st @ [(?req, Inr resp)],
             world := Sleep env Second w'\<rparr>"
          obtain g st2 where g: "GetRecords env fuel zone ?st1 = (g, st2)"
            by (cases "GetRecords env fuel zone ?st1")
          from assms \<open>heap st a = Some r0\<close> req Some d Inr True g
          have "(g = None \<and> it = Unfinished \<and> st' = st2) \<or>
       (\<exists>err. g = Some (Inl err) \<and> it = Completed \<and> st' = st2) \<or>
       (\<exists>allRecs. g = Some (Inr allRecs) \<and> it = Completed \<and>
          st' = st2\<lparr>heap := (heap st2)(a \<mapsto>
                   copy_ProviderData zone (TrimSuffix (Name ?r) ''.'') ?r allRecs)\<rparr>)"
            by (auto simp: unfold Do_request_def split: option.splits sum.splits)
          with \<open>heap st a = Some r0\<close> Some d[unfolded Inr] True g show ?thesis
            by (rule created)
        qed
      qed
    qed
  qed
qed


lemma AppendRecords_body_Completed:
  assumes "AppendRecords_body env fuel zone a st = (it, st')"
  shows "it \<noteq> Skipped \<and>
         (it = Completed \<longrightarrow>
            (\<exists>new req resp. log st' = log st @ new \<and> posts new = [(req, Inr resp)] \<and>
               StatusCode resp = 204))"
  using assms
proof (cases rule: AppendRecords_body_cases)
  case (created r0 c resp w' g st2)
  let ?req = "create_request env (provider st) (default_TTL r0) (world st)"
  from GetRecords_log[OF created(5)] obtain new2 where n2: "log st2 = (log st @ [(?req, Inr resp)]) @ new2"
    by auto
  from GetRecords_only_GET[OF created(5)] n2 have "\<forall>e \<in> set new2. Method (fst e) = ''GET''"
    by simp
  then have "posts ((?req, Inr resp) # new2) = [(?req, Inr resp)]"
    using posts_GET[of new2] by (simp add: posts_def create_request_def)
  moreover from created(6) n2 have "log st' = log st @ (?req, Inr resp) # new2"
    by auto
  moreover from created(6) have "it \<noteq> Skipped"
    by auto
  ultimately show ?thesis
    using created(4) by blast
qed simp_all

lemma AppendRecords_loop_posts:
  "AppendRecords_loop env fuel zone recs created st = (Some (Inr cr), st') \<Longrightarrow>
     \<exists>new. log st' = log st @ new \<and> cr = created @ filter is_TXT_ptr recs \<and>
       length (posts new) = length (filter is_TXT_ptr recs) \<and>
       (\<forall>e \<in> set (posts new). \<exists>resp. snd e = Inr resp \<and> StatusCode resp = 204)"
proof (induction recs arbitrary: created st)
  case Nil
  then show ?case by (simp add: posts_def)
next
  case (Cons rec recs)
  show ?case
  proof (cases rec)
    case Other_record
    with Cons show ?thesis by simp
  next
    case (TXT_ptr a)
    obtain it st1 where b: "AppendRecords_body env fuel zone a st = (it, st1)"
      by (cases "AppendRecords_body env fuel zone a st")
    from Cons.prems TXT_ptr b AppendRecords_body_Completed[OF b]
    have it: "it = Completed" and
      rest: "AppendRecords_loop env fuel zone recs (created @ [TXT_ptr a]) st1 = (Some (Inr cr), st')"
      by (cases it; simp)+
    from AppendRecords_body_Completed[OF b] it obtain new1 req resp where n1:
      "log st1 = log st @ new1" "posts new1 = [(req, Inr resp)]" "StatusCode resp = 204"
      by blast
    from Cons.IH[OF rest] obtain new2 where n2:
      "log st' = log st1 @ new2" "cr = (created @ [TXT_ptr a]) @ filter is_TXT_ptr recs"
      "length (posts new2) = length (filter is_TXT_ptr recs)"
      "\<forall>e \<in> set (posts new2). \<exists>resp. snd e = Inr resp \<and> StatusCode resp = 204"
      by blast
    show ?thesis
      using n1 n2 TXT_ptr
      by (intro exI[of _ "new1 @ new2"]) (auto simp: posts_append)
  qed
qed

lemma AppendRecords_loop_status:
  assumes "heap st a = Some r0" and "HTTPClient (provider st) = Some c"
    and "NewRequest_error env ''POST''
           (APIBase (provider st) @ ''/service/'' @ ServiceID (provider st) @ ''/dns/record'') = None"
    and "Do env c (create_request env (provider st) (default_TTL r0) (world st)) (world st) =
           (Inr resp, w')"
    and "StatusCode resp \<noteq> 204"
  shows "AppendRecords_loop env fuel zone (TXT_ptr a # recs) created st =
     (Some (Inl (Error (''failed to create record: '' @ Status resp @ '', body: '' @ RespBody resp))),
      st\<lparr>heap := (heap st)(a \<mapsto> default_TTL r0), world := w',
         log := log st @ [(create_request env (provider st) (default_TTL r0) (world st), Inr resp)]\<rparr>)"
proof -
  from assms(3) have nr: "NewRequest_error env ''POST'' (APIBase (provider st) @ create_urlPath (provider st)) = None"
    by (simp add: create_urlPath_def)
  from NewRequest_create[OF nr, of "default_TTL r0" "world st"] obtain req where
    "NewRequest env ''POST'' (APIBase (provider st) @ create_urlPath (provider st))
       (Some (create_body (default_TTL r0))) = Inr req"
    "addAuthHeaders env (provider st) req ''POST'' (create_sigPath (provider st)) (world st) =
       create_request env (provider st) (default_TTL r0) (world st)"
    by blast
  with assms show ?thesis
    by (simp add: AppendRecords_body_def Do_request_def Let_def)
qed









lemma with_Timeout_simps:
  "heap (with_Timeout t st) = heap st"
  "world (with_Timeout t st) = world st"
  "log (with_Timeout t st) = log st"
  "provider (with_Timeout t st) = (provider st)\<lparr>Timeout := t\<rparr>"
  "with_Timeout t (st\<lparr>world := w\<rparr>) = (with_Timeout t st)\<lparr>world := w\<rparr>"
  "with_Timeout t (st\<lparr>heap := h\<rparr>) = (with_Timeout t st)\<lparr>heap := h\<rparr>"
  "with_Timeout t (st\<lparr>log := l\<rparr>) = (with_Timeout t st)\<lparr>log := l\<rparr>"
  "with_Timeout t (with_Timeout t' st) = with_Timeout t st"
  by (simp_all add: with_Timeout_def)

lemma Timeout_paths:
  "list_urlPath (p\<lparr>Timeout := t\<rparr>) page = list_urlPath p page"
  "list_sigPath (p\<lparr>Timeout := t\<rparr>) = list_sigPath p"
  "create_urlPath (p\<lparr>Timeout := t\<rparr>) = create_urlPath p"
  "create_sigPath (p\<lparr>Timeout := t\<rparr>) = create_sigPath p"
  "delete_urlPath (p\<lparr>Timeout := t\<rparr>) ident = delete_urlPath p ident"
  "delete_sigPath (p\<lparr>Timeout := t\<rparr>) ident = delete_sigPath p ident"
  "addAuthHeaders env (p\<lparr>Timeout := t\<rparr>) req m path w = addAuthHeaders env p req m path w"
  by (simp_all add: list_urlPath_def list_sigPath_def create_urlPath_def create_sigPath_def
      delete_urlPath_def delete_sigPath_def addAuthHeaders_def calculateSignature_def)

lemma Do_request_Timeout:
  "Do_request env req (with_Timeout t st) =
     (case Do_request env req st of (r, st') \<Rightarrow> (r, with_Timeout t st'))"
  by (simp add: Do_request_def with_Timeout_def split: option.splits prod.splits sum.splits)

lemma GetRecords_loop_Timeout:
  "GetRecords_loop env fuel page acc (with_Timeout t st) =
     (case GetRecords_loop env fuel page acc st of (r, st') \<Rightarrow> (r, with_Timeout t st'))"
proof (induction fuel arbitrary: page acc st)
  case 0
  then show ?case by simp
next
  case (Suc fuel)
  show ?case
    by (simp add: Let_def with_Timeout_simps Timeout_paths Do_request_Timeout Suc
        split: sum.splits prod.splits)
qed

lemma ensureClient_Timeout:
  "ensureClient (p\<lparr>Timeout := t\<rparr>) =
     (ensureClient p)\<lparr>Timeout := (if t = 0 then 30 * Second else t)\<rparr>"
  by (simp add: ensureClient_def Let_def)

lemma ensure_with_Timeout:
  "(with_Timeout t st)\<lparr>provider := ensureClient (provider (with_Timeout t st))\<rparr> =
     with_Timeout (if t = 0 then 30 * Second else t) (st\<lparr>provider := ensureClient (provider st)\<rparr>)"
  by (simp add: with_Timeout_def ensureClient_Timeout)

lemma GetRecords_Timeout:
  "GetRecords env fuel zone (with_Timeout t st) =
     (case GetRecords env fuel zone st of
        (r, st') \<Rightarrow> (r, with_Timeout (if t = 0 then 30 * Second else t) st'))"
  unfolding GetRecords_def Let_def ensure_with_Timeout
  by (simp add: with_Timeout_simps GetRecords_loop_Timeout)


lemma with_Timeout_out:
  "(with_Timeout t st)\<lparr>world := w\<rparr> = with_Timeout t (st\<lparr>world := w\<rparr>)"
  "(with_Timeout t st)\<lparr>heap := h\<rparr> = with_Timeout t (st\<lparr>heap := h\<rparr>)"
  "(with_Timeout t st)\<lparr>log := l\<rparr> = with_Timeout t (st\<lparr>log := l\<rparr>)"
  by (simp_all add: with_Timeout_def)

lemma AppendRecords_body_Timeout:
  "t \<noteq> 0 \<Longrightarrow>
   AppendRecords_body env fuel zone a (with_Timeout t st) =
     (case AppendRecords_body env fuel zone a st of (it, st') \<Rightarrow> (it, with_Timeout t st'))"
  by (simp add: AppendRecords_body_def Let_def with_Timeout_simps(1-4) with_Timeout_out Timeout_paths
      Do_request_Timeout GetRecords_Timeout
      split: option.splits sum.splits prod.splits)

lemma AppendRecords_loop_Timeout:
  "t \<noteq> 0 \<Longrightarrow>
   AppendRecords_loop env fuel zone recs created (with_Timeout t st) =
     (case AppendRecords_loop env fuel zone recs created st of (r, st') \<Rightarrow> (r, with_Timeout t st'))"
proof (induction recs arbitrary: created st)
  case Nil
  then show ?case by simp
next
  case (Cons rec recs)
  show ?case
  proof (cases rec)
    case Other_record
    with Cons show ?thesis by simp
  next
    case (TXT_ptr a)
    show ?thesis
      by (simp add: TXT_ptr AppendRecords_body_Timeout[OF Cons.prems] Cons.IH[OF Cons.prems]
          split: prod.splits iteration.splits)
  qed
qed

lemma resolve_id_Timeout:
  "t \<noteq> 0 \<Longrightarrow>
   resolve_id env fuel zone r (with_Timeout t st) =
     (case resolve_id env fuel zone r st of (x, st') \<Rightarrow> (x, with_Timeout t st'))"
  by (simp add: resolve_id_def Let_def GetRecords_Timeout
      split: any.splits option.splits sum.splits prod.splits)

lemma DeleteRecords_body_Timeout:
  "t \<noteq> 0 \<Longrightarrow>
   DeleteRecords_body env fuel zone a (with_Timeout t st) =
     (case DeleteRecords_body env fuel zone a st of (it, st') \<Rightarrow> (it, with_Timeout t st'))"
  by (simp add: DeleteRecords_body_def Let_def with_Timeout_simps(1-4) with_Timeout_out Timeout_paths
      Do_request_Timeout resolve_id_Timeout
      split: option.splits sum.splits prod.splits)

lemma DeleteRecords_loop_Timeout:
  "t \<noteq> 0 \<Longrightarrow>
   DeleteRecords_loop env fuel zone recs deleted (with_Timeout t st) =
     (case DeleteRecords_loop env fuel zone recs deleted st of (r, st') \<Rightarrow> (r, with_Timeout t st'))"
proof (induction recs arbitrary: deleted st)
  case Nil
  then show ?case by simp
next
  case (Cons rec recs)
  show ?case
  proof (cases rec)
    case Other_record
    with Cons show ?thesis by simp
  next
    case (TXT_ptr a)
    show ?thesis
      by (simp add: TXT_ptr DeleteRecords_body_Timeout[OF Cons.prems] Cons.IH[OF Cons.prems]
          split: prod.splits iteration.splits)
  qed
qed

lemma Second_30: "30 * Second \<noteq> 0"
  by (simp add: Second_def)

lemma hi_nibble: "unat (drop_bit 4 (v :: 8 word)) < 16"
proof -
  have "unat v < 2 ^ LENGTH(8)" by (rule unsigned_less)
  then show ?thesis by (simp add: drop_bit_eq_div unat_div)
qed

lemma lo_nibble: "unat ((v :: 8 word) AND 0x0f) < 16"
proof -
  have "v AND 0x0f \<le> 0x0f" by (rule word_and_le1)
  then have "unat (v AND 0x0f) \<le> unat (0x0f :: 8 word)" by (simp add: word_le_nat_alt)
  then show ?thesis by simp
qed

lemma less_16_cases:
  "i < 16 \<Longrightarrow> i \<in> {0, 1, 2, 3, 4, 5, 6, 7, 8, 9, 10, 11, 12, 13, 14, 15 :: nat}"
  by simp arith

lemma digit_value_hextable: "i < 16 \<Longrightarrow> digit_value (hextable ! i) = i"
  by (drule less_16_cases) (auto simp: digit_value_def hextable_def)

lemma hextable_lowercase: "i < 16 \<Longrightarrow> hextable ! i \<in> set ''0123456789abcdef''"
  by (drule less_16_cases) (auto simp: hextable_def)

lemma nibbles_word: "16 * drop_bit 4 v + (v AND 0x0f) = (v :: 8 word)"
proof -
  have "(0x0f :: 8 word) = mask 4" by (simp add: mask_eq_exp_minus_1)
  then have a: "v AND 0x0f = take_bit 4 v" by (simp add: take_bit_eq_mask)
  have "push_bit 4 (drop_bit 4 v) + take_bit 4 v = v" by (rule bits_ident)
  then show ?thesis by (simp add: a push_bit_eq_mult mult.commute)
qed

lemma hex_decode_EncodeToString: "hex_decode (EncodeToString bs) = bs"
  by (induction bs) (simp_all add: digit_value_hextable hi_nibble lo_nibble nibbles_word)

lemma EncodeToString_hextable: "set (EncodeToString bs) \<subseteq> set hextable"
proof (induction bs)
  case Nil
  then show ?case by simp
next
  case (Cons v bs)
  have len: "length hextable = 16" by (simp add: hextable_def)
  have "hextable ! unat (drop_bit 4 v) \<in> set hextable" "hextable ! unat (v AND 0x0f) \<in> set hextable"
    using hi_nibble[of v] lo_nibble[of v] by (simp_all add: len del: set_simps)
  with Cons show ?case by simp
qed

lemma EncodeToString_lowercase: "set (EncodeToString bs) \<subseteq> set ''0123456789abcdef''"
  using EncodeToString_hextable[of bs] unfolding hextable_def .

subsection \<open>\<^verbatim>\<open>int(d.Seconds())\<close> for durations below \<open>2 ^ 24\<close> seconds\<close>

text \<open>
  \<^verbatim>\<open>Seconds\<close> adds the whole seconds and the rounded fraction \<^verbatim>\<open>nsec / 1e9\<close> in float64 and
  rounds the sum. The fraction is at most \<open>1 - 10 ^ -9\<close>, which lies more than \<open>2 ^ -30\<close>
  below one; a sum below \<open>2 ^ 24\<close> is rounded to a multiple of \<open>2 ^ -29\<close> at most, so the
  rounding never reaches the next whole second and the conversion to \<^verbatim>\<open>int\<close> returns the
  whole seconds.
\<close>

lemma bit_length_bounds:
  "0 < n \<Longrightarrow> 0 < bit_length n \<and> 2 ^ (bit_length n - 1) \<le> n \<and> n < 2 ^ bit_length n"
proof (induction n rule: bit_length.induct)
  case (1 n)
  show ?case
  proof (cases "n div 2 = 0")
    case True
    with "1.prems" have "n = 1" by (simp add: div_eq_0_iff) 
    then show ?thesis by (simp add: bit_length.simps[of "Suc 0"] bit_length.simps[of 0])
  next
    case False
    then have h: "0 < n div 2" by simp
    from "1.prems" have n0: "n \<noteq> 0" by simp
    from "1.IH"[OF n0 h] have ih: "0 < bit_length (n div 2)"
      "2 ^ (bit_length (n div 2) - 1) \<le> n div 2" "n div 2 < 2 ^ bit_length (n div 2)"
      by auto
    have bl: "bit_length n = Suc (bit_length (n div 2))"
      using n0 by (simp add: bit_length.simps[of n])
    from ih(1) have p: "(2::nat) ^ bit_length (n div 2) = 2 * 2 ^ (bit_length (n div 2) - 1)"
      by (cases "bit_length (n div 2)") simp_all
    have lo: "2 ^ bit_length (n div 2) \<le> n"
      using ih(2) p by simp
    have hi: "n < 2 * 2 ^ bit_length (n div 2)"
      using ih(3) by arith
    show ?thesis
      using lo hi by (simp add: bl)
  qed
qed

lemma ilog2_ratio_spec:
  assumes "0 < a" and "0 < b"
  shows "b * 2 ^ nat (ilog2_ratio a b) \<le> a * 2 ^ nat (- ilog2_ratio a b) \<and>
         a * 2 ^ nat (- ilog2_ratio a b) < 2 * b * 2 ^ nat (ilog2_ratio a b)"
proof -
  define la where "la = bit_length a"
  define lb where "lb = bit_length b"
  from bit_length_bounds[OF assms(1)] have a: "0 < la" "2 ^ (la - 1) \<le> a" "a < 2 ^ la"
    by (simp_all add: la_def)
  from bit_length_bounds[OF assms(2)] have b: "0 < lb" "2 ^ (lb - 1) \<le> b" "b < 2 ^ lb"
    by (simp_all add: lb_def)
  from a(1) have pa: "(2::nat) ^ la = 2 * 2 ^ (la - 1)" by (cases la) simp_all
  from b(1) have pb: "(2::nat) ^ lb = 2 * 2 ^ (lb - 1)" by (cases lb) simp_all
  define d where "d = int la - int lb"
  have e: "ilog2_ratio a b = (if b * 2 ^ nat d \<le> a * 2 ^ nat (- d) then d else d - 1)"
    by (simp add: ilog2_ratio_def la_def lb_def d_def Let_def)
  show ?thesis
  proof (cases "lb \<le> la")
    case True
    define k where "k = la - lb"
    have d: "d = int k" using True by (simp add: d_def k_def)
    have la: "la = lb + k" using True by (simp add: k_def)
    have up: "a < 2 * b * 2 ^ k"
    proof -
      have "a < 2 ^ lb * 2 ^ k" using a(3) by (simp add: la power_add)
      also have "\<dots> = 2 * 2 ^ (lb - 1) * 2 ^ k" by (simp add: pb)
      also have "\<dots> \<le> 2 * b * 2 ^ k" using b(2) by simp
      finally show ?thesis .
    qed
    show ?thesis
    proof (cases "b * 2 ^ k \<le> a")
      case cmp: True
      then show ?thesis using up by (simp add: e d)
    next
      case cmp: False
      show ?thesis
      proof (cases k)
        case 0
        with cmp have ab: "a < b" by simp
        have "b < 2 * a"
        proof -
          have "b < 2 * 2 ^ (la - 1)" using b(3) pa 0 la by simp
          also have "\<dots> \<le> 2 * a" using a(2) by simp
          finally show ?thesis .
        qed
        with ab show ?thesis using cmp 0 by (simp add: e d)
      next
        case (Suc j)
        have lo: "b * 2 ^ j \<le> a"
        proof -
          have "b * 2 ^ j \<le> 2 ^ lb * 2 ^ j" using b(3) by simp
          also have "\<dots> = 2 ^ (la - 1)" using la Suc by (simp add: power_add)
          also have "\<dots> \<le> a" by (rule a(2))
          finally show ?thesis .
        qed
        have hi: "a < 2 * b * 2 ^ j"
          using cmp Suc by simp
        have nd: "nat d = k" "nat (- d) = 0" by (simp_all add: d)
        have "ilog2_ratio a b = d - 1"
          using cmp by (simp add: e nd)
        moreover have "d - 1 = int j" using Suc d by simp
        ultimately have "ilog2_ratio a b = int j" by simp
        then show ?thesis
          using lo hi by simp
      qed
    qed
  next
    case False
    define k where "k = lb - la"
    have k: "0 < k" using False by (simp add: k_def)
    have d: "d = - int k" using False by (simp add: d_def k_def)
    have lb: "lb = la + k" using False by (simp add: k_def)
    have nd: "nat d = 0" "nat (- d) = k" by (simp_all add: d)
    have up: "a * 2 ^ k < 2 * b"
    proof -
      have "a * 2 ^ k < 2 ^ la * 2 ^ k" using a(3) by simp
      also have "\<dots> = 2 * 2 ^ (lb - 1)" using pb by (simp add: lb power_add)
      also have "\<dots> \<le> 2 * b" using b(2) by simp
      finally show ?thesis .
    qed
    show ?thesis
    proof (cases "b \<le> a * 2 ^ k")
      case cmp: True
      then show ?thesis using up by (simp add: e nd)
    next
      case cmp: False
      have lo: "b \<le> a * 2 ^ Suc k"
      proof -
        have "b \<le> 2 ^ lb" using b(3) by simp
        also have "\<dots> = 2 ^ (la - 1) * 2 ^ Suc k" using pa by (simp add: lb power_add)
        also have "\<dots> \<le> a * 2 ^ Suc k" using a(2) by (intro mult_right_mono) simp_all
        finally show ?thesis .
      qed
      have n1: "nat (d - 1) = 0" "nat (1 - d) = Suc k" by (simp_all add: d)
      have "ilog2_ratio a b = d - 1" using cmp by (simp add: e nd)
      then show ?thesis
        using cmp lo by (simp add: n1)
    qed
  qed
qed

lemma ilog2_ratio_upper:
  assumes "0 < a" and "0 < b" and "a < b * 2 ^ K"
  shows "ilog2_ratio a b < int K"
proof (rule ccontr)
  assume "\<not> ilog2_ratio a b < int K"
  then have ge: "int K \<le> ilog2_ratio a b" by simp
  define e where "e = nat (ilog2_ratio a b)"
  have Ke: "K \<le> e" using ge by (simp add: e_def)
  have n0: "nat (- ilog2_ratio a b) = 0" using ge by simp
  from ilog2_ratio_spec[OF assms(1,2)] have "b * 2 ^ e \<le> a" by (simp add: e_def n0)
  moreover have "b * 2 ^ K \<le> b * 2 ^ e" using Ke by (simp add: power_increasing)
  ultimately show False using assms(3) by simp
qed

lemma ilog2_ratio_lower:
  assumes "0 < a" and "0 < b" and "b \<le> a"
  shows "0 \<le> ilog2_ratio a b"
proof (rule ccontr)
  assume "\<not> 0 \<le> ilog2_ratio a b"
  then have neg: "ilog2_ratio a b < 0" by simp
  define j where "j = nat (- ilog2_ratio a b)"
  have j: "0 < j" using neg by (simp add: j_def)
  have n0: "nat (ilog2_ratio a b) = 0" using neg by simp
  from ilog2_ratio_spec[OF assms(1,2)] have "a * 2 ^ j < 2 * b" by (simp add: j_def n0)
  moreover have "a * 2 \<le> a * 2 ^ j" using j by (cases j) simp_all
  ultimately show False using assms(3) by simp
qed

lemma float64_of_int_exact:
  assumes "0 < s" and "s < 2 ^ K" and "K \<le> 53"
  shows "\<exists>j. 53 \<le> j + K \<and> j \<le> 52 \<and>
           float64_of_int (int s) = Float64 (int (s * 2 ^ j)) (- int j)"
proof -
  define e where "e = ilog2_ratio s (Suc 0)"
  have lo: "0 \<le> e" unfolding e_def using assms(1) by (intro ilog2_ratio_lower) simp_all
  have hi: "e < int K" unfolding e_def using assms(1,2) by (intro ilog2_ratio_upper) simp_all
  define j where "j = nat (52 - e)"
  have j: "52 - e = int j" "e - 52 = - int j" "nat (e - 52) = 0"
    using hi assms(3) by (simp_all add: j_def)
  have nj: "nat (int j) = j" by simp
  have "float64_of_int (int s) = Float64 (int (s * 2 ^ j)) (- int j)"
    using assms(1) by (simp add: float64_of_int_def round_ratio_def Let_def e_def[symmetric] j)
  moreover have "53 \<le> j + K" using hi lo by (simp add: j_def)
  moreover have "j \<le> 52" using lo by (simp add: j_def)
  ultimately show ?thesis by blast
qed

lemma round_ratio_frac:
  assumes "0 < ns" and "ns < 1000000000" and "0 < c"
  shows "\<exists>m k. 53 \<le> k \<and> m * 2 ^ 30 + 2 ^ k < 2 ^ k * 2 ^ 30 \<and>
           round_ratio (int (ns * c)) (int (1000000000 * c)) = Float64 (int m) (- int k)"
proof -
  define a where "a = ns * c"
  define b where "b = 1000000000 * c"
  have a: "0 < a" using assms by (simp add: a_def)
  have b: "0 < b" using assms by (simp add: b_def)
  have ab: "a < b * 2 ^ 0" using assms by (simp add: a_def b_def)
  define e where "e = ilog2_ratio a b"
  have e: "e < 0" using ilog2_ratio_upper[OF a b ab] by (simp add: e_def)
  define k where "k = nat (52 - e)"
  have k: "53 \<le> k" "52 - e = int k" "e - 52 = - int k" "nat (e - 52) = 0"
    using e by (simp_all add: k_def)
  define X where "X = (2::nat) ^ k"
  have "(2::nat) ^ 53 \<le> 2 ^ k" using k(1) by (intro power_increasing) simp_all
  then have X: "9007199254740992 \<le> X" by (simp add: X_def)
  define q where "q = a * X div b"
  define r where "r = a * X mod b"
  define m where "m = (if 2 * r < b \<or> (2 * r = b \<and> even q) then q else q + 1)"
  have rr: "round_ratio (int a) (int b) = Float64 (int m) (- int k)"
    unfolding m_def q_def r_def X_def
    using a by (simp add: round_ratio_def Let_def e_def[symmetric] k)
  have "q * b \<le> a * X" by (simp add: q_def)
  then have "(q * 1000000000) * c \<le> (ns * X) * c" by (simp add: a_def b_def mult_ac)
  then have "q * 1000000000 \<le> ns * X" using assms(3) by simp
  also have "\<dots> \<le> 999999999 * X" using assms(2) by simp
  finally have qb: "q * 1000000000 \<le> 999999999 * X" .
  have mq: "m \<le> q + 1" by (simp add: m_def)
  have "m * 1073741824 + X < X * 1073741824" using qb mq X by arith
  then have "m * 2 ^ 30 + 2 ^ k < 2 ^ k * 2 ^ 30" by (simp add: X_def)
  with rr k(1) show ?thesis unfolding a_def b_def by blast
qed

lemma round_ratio_trunc:
  fixes sec m k :: nat
  assumes sec: "sec < 2 ^ 24" and m: "m * 2 ^ 30 + 2 ^ k < 2 ^ k * 2 ^ 30"
  shows "int_of_float64 (round_ratio (int (sec * 2 ^ k + m)) (2 ^ k)) = int sec"
proof (cases "sec * 2 ^ k + m = 0")
  case True
  then have "sec = 0" by simp
  with True show ?thesis by (simp add: round_ratio_def)
next
  case False
  define X where "X = (2::nat) ^ k"
  define n where "n = sec * X + m"
  have X: "0 < X" by (simp add: X_def)
  have n: "0 < n" using False by (simp add: n_def X_def)
  have m': "m * 1073741824 + X < X * 1073741824" using m by (simp add: X_def)
  then have mX: "m < X" by arith
  have "Suc sec \<le> 16777216" using sec by simp
  then have "Suc sec * X \<le> 16777216 * X" by (rule mult_le_mono1)
  then have "sec * X + X \<le> X * 16777216" by (simp add: mult.commute)
  moreover have "sec * X + m < sec * X + X" using mX by simp
  ultimately have "sec * X + m < X * 16777216" by (rule less_le_trans[rotated])
  then have nX: "n < X * 2 ^ 24" by (simp add: n_def)
  define e where "e = ilog2_ratio n X"
  have e: "e < 24" using ilog2_ratio_upper[OF n X nX] by (simp add: e_def)
  define j where "j = nat (52 - e)"
  have j: "29 \<le> j" "52 - e = int j" "e - 52 = - int j" "nat (e - 52) = 0"
    using e by (simp_all add: j_def)
  define J where "J = (2::nat) ^ j"
  have J: "0 < J" by (simp add: J_def)
  define q where "q = n * J div X"
  define r where "r = n * J mod X"
  define mm where "mm = (if 2 * r < X \<or> (2 * r = X \<and> even q) then q else q + 1)"
  have natX: "nat ((2::int) ^ k) = X" by (simp add: X_def nat_power_eq)
  have rr: "round_ratio (int n) (2 ^ k) = Float64 (int mm) (- int j)"
    unfolding mm_def q_def r_def J_def
    using n by (simp add: round_ratio_def Let_def natX e_def[symmetric] j)
  define t where "t = m * J div X"
  have nJ: "n * J = (sec * J) * X + m * J" by (simp add: n_def algebra_simps)
  have q: "q = sec * J + t" using X by (simp add: q_def t_def nJ)
  have r: "r = m * J mod X" by (simp add: r_def nJ)
  have "m * J < J * X" using mX J by simp
  then have tJ: "t < J" unfolding t_def by (rule less_mult_imp_div_less)
  have decomp: "m * J = t * X + r" by (simp add: t_def r)
  define I where "I = (2::nat) ^ (j - 29)"
  have I: "0 < I" by (simp add: I_def)
  have "J = 2 ^ (29 + (j - 29))" using j(1) by (simp add: J_def)
  then have J2: "2 * J = 1073741824 * I" by (simp add: I_def power_add)
  from m' I have "(m * 1073741824 + X) * I < (X * 1073741824) * I" by simp
  then have "m * (1073741824 * I) + X * I < X * (1073741824 * I)" by (simp add: algebra_simps)
  then have "m * (2 * J) + X * I < X * (2 * J)" by (simp only: J2)
  moreover have "X \<le> X * I" using I by simp
  ultimately have "m * (2 * J) + X < X * (2 * J)" by linarith
  then have key: "2 * (m * J) + X < 2 * (X * J)" by (simp add: mult_ac)
  have lower: "J * sec \<le> mm" by (simp add: mm_def q)
  have upper: "mm < J * Suc sec"
  proof (cases "t + 1 < J")
    case True
    then have "q + 1 < J * Suc sec" by (simp add: q mult.commute)
    moreover have "mm \<le> q + 1" by (simp add: mm_def)
    ultimately show ?thesis by linarith
  next
    case False
    with tJ have t1: "J = t + 1" by simp
    have XJ: "X * J = t * X + X" by (simp add: t1 algebra_simps)
    have "2 * (t * X + r) + X < 2 * (t * X + X)" using key by (simp only: decomp XJ)
    moreover have "\<And>u v w :: nat. 2 * (u + v) + w < 2 * (u + w) \<Longrightarrow> 2 * v < w" by arith
    ultimately have "2 * r < X" by blast
    then have "mm = q" by (simp add: mm_def)
    moreover have "sec * J + t < J * Suc sec" using tJ by (simp add: mult.commute)
    ultimately show ?thesis by (simp only: q)
  qed
  have dv: "mm div J = sec" using lower upper by (rule div_nat_eqI)
  have "int_of_float64 (Float64 (int mm) (- int j)) = int (mm div J)"
    using j(1) by (simp add: J_def sgn_if zdiv_int)
  then show ?thesis using rr dv by (simp add: n_def X_def)
qed

lemma float64_of_int_0: "float64_of_int 0 = Float64 0 0"
  by (simp add: float64_of_int_def round_ratio_def)

lemma float64_of_int_nat:
  assumes "s < 2 ^ K" and "K \<le> 53"
  shows "\<exists>j. j \<le> 52 \<and> float64_of_int (int s) = Float64 (int (s * 2 ^ j)) (- int j)"
proof (cases "s = 0")
  case True
  then have "float64_of_int (int s) = Float64 (int (s * 2 ^ 0)) (- int 0)"
    by (simp add: float64_of_int_0)
  then show ?thesis by blast
next
  case False
  then have "0 < s" by simp
  from float64_of_int_exact[OF this assms] show ?thesis by blast
qed

lemma float64_div_scaled:
  assumes x: "0 < x" "x < 2 ^ 53" and y: "0 < y" "y < 2 ^ 53"
  shows "\<exists>c>0. float64_div (float64_of_int (int x)) (float64_of_int (int y)) =
           round_ratio (int (x * c)) (int (y * c))"
proof -
  from float64_of_int_exact[OF x] obtain j1 where
    j1: "float64_of_int (int x) = Float64 (int (x * 2 ^ j1)) (- int j1)" by auto
  from float64_of_int_exact[OF y] obtain j2 where
    j2: "float64_of_int (int y) = Float64 (int (y * 2 ^ j2)) (- int j2)" by auto
  define M1 where "M1 = int (x * 2 ^ j1)"
  define M2 where "M2 = int (y * 2 ^ j2)"
  have M2: "0 < M2" using y(1) by (simp add: M2_def)
  then have sg: "sgn M2 = 1" "\<bar>M2\<bar> = M2" by simp_all
  have dv: "float64_div (float64_of_int (int x)) (float64_of_int (int y)) =
      round_ratio (M1 * 2 ^ nat (int j2 - int j1)) (M2 * 2 ^ nat (int j1 - int j2))"
    unfolding j1 j2 M1_def[symmetric] M2_def[symmetric] by (simp add: sg)
  show ?thesis
  proof (cases "j1 \<le> j2")
    case True
    have n: "nat (int j2 - int j1) = j2 - j1" "nat (int j1 - int j2) = 0" using True by simp_all
    have "(2::int) ^ j1 * 2 ^ (j2 - j1) = 2 ^ j2" using True by (simp flip: power_add)
    then have "M1 * 2 ^ (j2 - j1) = int (x * 2 ^ j2)" by (simp add: M1_def mult.assoc)
    then have "float64_div (float64_of_int (int x)) (float64_of_int (int y)) =
       round_ratio (int (x * 2 ^ j2)) (int (y * 2 ^ j2))"
      unfolding dv n by (simp add: M2_def)
    moreover have "0 < (2::nat) ^ j2" by simp
    ultimately show ?thesis by blast
  next
    case False
    have n: "nat (int j2 - int j1) = 0" "nat (int j1 - int j2) = j1 - j2" using False by simp_all
    have "(2::int) ^ j2 * 2 ^ (j1 - j2) = 2 ^ j1" using False by (simp flip: power_add)
    then have "M2 * 2 ^ (j1 - j2) = int (y * 2 ^ j1)" by (simp add: M2_def mult.assoc)
    then have "float64_div (float64_of_int (int x)) (float64_of_int (int y)) =
       round_ratio (int (x * 2 ^ j1)) (int (y * 2 ^ j1))"
      unfolding dv n by (simp add: M1_def)
    moreover have "0 < (2::nat) ^ j1" by simp
    ultimately show ?thesis by blast
  qed
qed

lemma float64_add_trunc:
  fixes s m j k :: nat
  assumes "s < 2 ^ 24" and "m * 2 ^ 30 + 2 ^ k < 2 ^ k * 2 ^ 30" and "j \<le> k"
  shows "int_of_float64 (float64_add (Float64 (int (s * 2 ^ j)) (- int j))
           (Float64 (int m) (- int k))) = int s"
proof -
  define M where "M = int (s * 2 ^ j)"
  have n: "min (- int j) (- int k) = - int k" "nat (- int j - - int k) = k - j"
    "nat (- int k - - int k) = 0" "nat (- int k) = 0" "nat (- (- int k)) = k"
    "nat (int k - int j) = k - j"
    using assms(3) by simp_all
  have "(2::int) ^ j * 2 ^ (k - j) = 2 ^ k" using assms(3) by (simp flip: power_add)
  then have "M * 2 ^ (k - j) = int (s * 2 ^ k)" by (simp add: M_def mult.assoc)
  then have "M * 2 ^ (k - j) + int m = int (s * 2 ^ k + m)" by simp
  then have "float64_add (Float64 M (- int j)) (Float64 (int m) (- int k)) =
      round_ratio (int (s * 2 ^ k + m)) (2 ^ k)"
    by (simp add: Let_def n)
  then show ?thesis
    unfolding M_def using round_ratio_trunc[OF assms(1,2)] by simp
qed

lemma float64_add_zero_trunc:
  fixes s j :: nat
  assumes "s < 2 ^ 24"
  shows "int_of_float64 (float64_add (Float64 (int (s * 2 ^ j)) (- int j)) (Float64 0 0)) = int s"
proof -
  define M where "M = int (s * 2 ^ j)"
  have n: "min (- int j) 0 = - int j" "nat (- int j - - int j) = 0"
    "nat (- int j) = 0" "nat (- (- int j)) = j"
    by simp_all
  have h: "0 * 2 ^ 30 + 2 ^ j < 2 ^ j * (2::nat) ^ 30" by simp
  have "float64_add (Float64 M (- int j)) (Float64 0 0) = round_ratio (int (s * 2 ^ j + 0)) (2 ^ j)"
    by (simp add: Let_def n M_def)
  then show ?thesis
    unfolding M_def using round_ratio_trunc[OF assms h] by simp
qed

lemma Seconds_nat:
  fixes s ns :: nat
  assumes s: "s < 2 ^ 24" and ns: "ns < 1000000000"
  shows "int_of_float64 (float64_add (float64_of_int (int s))
           (float64_div (float64_of_int (int ns)) (float64_of_int 1000000000))) = int s"
proof -
  have K: "(24::nat) \<le> 53" by simp
  from float64_of_int_nat[OF s K] obtain j where
    j: "j \<le> 52" "float64_of_int (int s) = Float64 (int (s * 2 ^ j)) (- int j)" by blast
  have g: "(1000000000::nat) < 2 ^ 53" "0 < (1000000000::nat)" by simp_all
  have G: "float64_of_int 1000000000 = float64_of_int (int 1000000000)" by simp
  show ?thesis
  proof (cases "ns = 0")
    case True
    from float64_of_int_exact[OF g(2) g(1)] obtain j2 where
      "float64_of_int (int 1000000000) = Float64 (int (1000000000 * 2 ^ j2)) (- int j2)" by auto
    then have "float64_div (float64_of_int (int ns)) (float64_of_int 1000000000) = Float64 0 0"
      unfolding G by (simp add: True float64_of_int_0 round_ratio_def)
    then show ?thesis unfolding j(2) using float64_add_zero_trunc[OF s] by simp
  next
    case False
    then have p: "0 < ns" by simp
    have b: "ns < 2 ^ 53" using ns by simp
    from float64_div_scaled[OF p b g(2) g(1)] obtain c where
      c: "0 < c" "float64_div (float64_of_int (int ns)) (float64_of_int (int 1000000000)) =
           round_ratio (int (ns * c)) (int (1000000000 * c))" by blast
    from round_ratio_frac[OF p ns c(1)] obtain m k where
      mk: "53 \<le> k" "m * 2 ^ 30 + 2 ^ k < 2 ^ k * 2 ^ 30"
        "round_ratio (int (ns * c)) (int (1000000000 * c)) = Float64 (int m) (- int k)" by blast
    have jk: "j \<le> k" using j(1) mk(1) by simp
    show ?thesis
      unfolding j(2) G c(2) mk(3) by (rule float64_add_trunc[OF s mk(2) jk])
  qed
qed

lemma round_ratio_neg: "round_ratio (- n) d = float64_neg (round_ratio n d)"
  by (simp add: round_ratio_def Let_def)

lemma float64_of_int_neg: "float64_of_int (- i) = float64_neg (float64_of_int i)"
  by (simp add: float64_of_int_def round_ratio_neg)

lemma float64_div_neg: "float64_div (float64_neg x) y = float64_neg (float64_div x y)"
proof (cases x)
  case x: (Float64 m1 e1)
  show ?thesis
  proof (cases y)
    case y: (Float64 m2 e2)
    have "sgn m2 * - m1 * 2 ^ nat (e1 - e2) = - (sgn m2 * m1 * 2 ^ nat (e1 - e2))" by simp
    then show ?thesis unfolding x y by (simp only: float64_neg.simps float64_div.simps round_ratio_neg)
  qed
qed

lemma float64_add_neg:
  "float64_add (float64_neg x) (float64_neg y) = float64_neg (float64_add x y)"
proof (cases x)
  case x: (Float64 m1 e1)
  show ?thesis
  proof (cases y)
    case y: (Float64 m2 e2)
    define e where "e = min e1 e2"
    have "(- m1 * 2 ^ nat (e1 - e) + - m2 * 2 ^ nat (e2 - e)) * 2 ^ nat e =
       - ((m1 * 2 ^ nat (e1 - e) + m2 * 2 ^ nat (e2 - e)) * 2 ^ nat e)" by (simp add: algebra_simps)
    then show ?thesis unfolding x y
      by (simp only: float64_neg.simps float64_add.simps Let_def e_def[symmetric] round_ratio_neg)
  qed
qed

lemma int_of_float64_neg: "int_of_float64 (float64_neg x) = - int_of_float64 x"
  by (cases x) simp

lemma Seconds_trunc:
  assumes "\<bar>sint d\<bar> < 16777216000000000"
  shows "int_of_float64 (Seconds d) = sint d sdiv 1000000000"
proof -
  define D where "D = sint d"
  have S: "sint Second = 1000000000" by (simp add: Second_def)
  have unf: "Seconds d = float64_add (float64_of_int (D sdiv 1000000000))
      (float64_div (float64_of_int (D smod 1000000000)) (float64_of_int 1000000000))"
    by (simp add: Seconds_def S D_def Let_def)
  define s where "s = nat (\<bar>D\<bar> div 1000000000)"
  define ns where "ns = nat (\<bar>D\<bar> mod 1000000000)"
  have s: "s < 2 ^ 24" using assms by (simp add: s_def D_def)
  have ns: "ns < 1000000000" by (simp add: ns_def)
  have iS: "int s = \<bar>D\<bar> div 1000000000" by (simp add: s_def)
  have ins: "int ns = \<bar>D\<bar> mod 1000000000" by (simp add: ns_def)
  show ?thesis
  proof (cases "0 \<le> D")
    case True
    have "D sdiv 1000000000 = int s" "D smod 1000000000 = int ns"
      using True by (simp_all add: signed_divide_int_def signed_modulo_int_def iS ins sgn_if)
    then show ?thesis
      unfolding unf D_def[symmetric] using Seconds_nat[OF s ns] by simp
  next
    case False
    have e: "D sdiv 1000000000 = - int s" "D smod 1000000000 = - int ns"
      using False by (simp_all add: signed_divide_int_def signed_modulo_int_def iS ins sgn_if)
    show ?thesis
      unfolding unf D_def[symmetric] e
      using Seconds_nat[OF s ns]
      by (simp only: float64_of_int_neg float64_div_neg float64_add_neg int_of_float64_neg)
  qed
qed

subsection \<open>The bodies of the creation requests of one iteration\<close>

lemma AppendRecords_body_bodies:
  assumes "AppendRecords_body env fuel zone a st = (it, st')" and h: "heap st a = Some r0"
  shows "\<exists>new. log st' = log st @ new \<and>
           (\<forall>e \<in> set (posts new). Body (fst e) = Some (create_body (default_TTL r0)))"
  using assms(1)
proof (cases rule: AppendRecords_body_cases)
  case nil
  with h show ?thesis by simp
next
  case (bad_request r1 err)
  then have "log st' = log st @ []" by simp
  then show ?thesis unfolding posts_def by fastforce
next
  case (no_client r1)
  then have "log st' = log st @ []" by simp
  then show ?thesis unfolding posts_def by fastforce
next
  case (transport r1 c err w')
  with h have r: "r1 = r0" by simp
  let ?req = "create_request env (provider st) (default_TTL r0) (world st)"
  from transport(5) r have "log st' = log st @ [(?req, Inl err)]" by simp
  moreover have "\<forall>e \<in> set (posts [(?req, Inl err :: string + Response)]).
      Body (fst e) = Some (create_body (default_TTL r0))"
    by (simp add: posts_def create_request_def)
  ultimately show ?thesis by blast
next
  case (status r1 c resp w')
  with h have r: "r1 = r0" by simp
  let ?req = "create_request env (provider st) (default_TTL r0) (world st)"
  from status(6) r have "log st' = log st @ [(?req, Inr resp)]" by simp
  moreover have "\<forall>e \<in> set (posts [(?req, Inr resp :: string + Response)]).
      Body (fst e) = Some (create_body (default_TTL r0))"
    by (simp add: posts_def create_request_def)
  ultimately show ?thesis by blast
next
  case (created r1 c resp w' g st2)
  with h have r: "r1 = r0" by simp
  let ?req = "create_request env (provider st) (default_TTL r0) (world st)"
  from GetRecords_log[OF created(5)] r obtain new2 where
    n2: "log st2 = (log st @ [(?req, Inr resp)]) @ new2"
    by auto
  from GetRecords_only_GET[OF created(5)] n2 r have "\<forall>e \<in> set new2. Method (fst e) = ''GET''"
    by simp
  then have "posts ((?req, Inr resp) # new2) = [(?req, Inr resp)]"
    using posts_GET[of new2] by (simp add: posts_def create_request_def)
  then have "\<forall>e \<in> set (posts ((?req, Inr resp) # new2)).
      Body (fst e) = Some (create_body (default_TTL r0))"
    by (simp add: create_request_def)
  moreover from created(6) n2 have "log st' = log st @ (?req, Inr resp) # new2"
    by auto
  ultimately show ?thesis by blast
qed

lemma create_body_truncated:
  assumes "\<bar>sint (TTL r)\<bar> < 16777216000000000"
  shows "create_body r = interpolated_body r"
  using Seconds_trunc[OF assms]
  by (simp add: create_body_def interpolated_body_def truncated_seconds_def)

subsection \<open>A duration of 16777216.999999999 s\<close>

lemma bit_length_Suc_0: "bit_length (Suc 0) = 1"
  by (simp add: bit_length.simps)

lemma bit_length_16777216: "bit_length 16777216 = 25"
  by (simp add: bit_length.simps)

lemma bit_length_999999999: "bit_length 999999999 = 30"
  by (simp add: bit_length.simps)

lemma bit_length_1000000000: "bit_length 1000000000 = 30"
  by (simp add: bit_length.simps)

lemma bit_length_dividend: "bit_length 8388607991611392 = 53"
  by (simp add: bit_length.simps)

lemma bit_length_divisor: "bit_length 8388608000000000 = 53"
  by (simp add: bit_length.simps)

lemma bit_length_sum: "bit_length 151115736459027892572065 = 78"
  by (simp add: bit_length.simps)

lemma bit_length_unit: "bit_length 9007199254740992 = 54"
  by (simp add: bit_length.simps)

lemma float64_of_int_16777216: "float64_of_int 16777216 = Float64 4503599627370496 (-28)"
proof -
  have "ilog2_ratio 16777216 (Suc 0) = 24"
    by (simp add: ilog2_ratio_def bit_length_16777216 bit_length_Suc_0)
  then show ?thesis by (simp add: float64_of_int_def round_ratio_def)
qed

lemma float64_of_int_999999999: "float64_of_int 999999999 = Float64 8388607991611392 (-23)"
proof -
  have "ilog2_ratio 999999999 (Suc 0) = 29"
    by (simp add: ilog2_ratio_def bit_length_999999999 bit_length_Suc_0)
  then show ?thesis by (simp add: float64_of_int_def round_ratio_def)
qed

lemma float64_of_int_1000000000: "float64_of_int 1000000000 = Float64 8388608000000000 (-23)"
proof -
  have "ilog2_ratio 1000000000 (Suc 0) = 29"
    by (simp add: ilog2_ratio_def bit_length_1000000000 bit_length_Suc_0)
  then show ?thesis by (simp add: float64_of_int_def round_ratio_def)
qed

lemma float64_div_999999999:
  "float64_div (Float64 8388607991611392 (-23)) (Float64 8388608000000000 (-23)) =
     Float64 9007199245733793 (-53)"
proof -
  have "ilog2_ratio 8388607991611392 8388608000000000 = - 1"
    by (simp add: ilog2_ratio_def bit_length_dividend bit_length_divisor)
  then show ?thesis by (simp add: round_ratio_def)
qed

lemma float64_add_16777216:
  "float64_add (Float64 4503599627370496 (-28)) (Float64 9007199245733793 (-53)) =
     Float64 4503599895805952 (-28)"
proof -
  have "ilog2_ratio 151115736459027892572065 9007199254740992 = 24"
    by (simp add: ilog2_ratio_def bit_length_sum bit_length_unit)
  then show ?thesis by (simp add: round_ratio_def)
qed

lemma Seconds_rounds_up: "int_of_float64 (Seconds 16777216999999999) = 16777217"
proof -
  have "sint (16777216999999999 :: 64 word) = 16777216999999999" by simp
  then have "Seconds 16777216999999999 =
      float64_add (float64_of_int 16777216)
        (float64_div (float64_of_int 999999999) (float64_of_int 1000000000))"
    by (simp add: Seconds_def Second_def signed_divide_int_def signed_modulo_int_def)
  then have "Seconds 16777216999999999 = Float64 4503599895805952 (-28)"
    by (simp only: float64_of_int_16777216 float64_of_int_999999999 float64_of_int_1000000000
        float64_div_999999999 float64_add_16777216)
  then show ?thesis by simp
qed

section \<open>C2: the configuration check\<close>

text \<open>
  Claim C2 says that every public operation fails with the configuration error, before any
  HTTP request, whenever the API key, the API secret or the service identifier is empty.
  The provider checks the service identifier only. What holds: with an empty service
  identifier each of \<^verbatim>\<open>AppendRecords\<close>, \<^verbatim>\<open>DeleteRecords\<close> and \<^verbatim>\<open>GetRecords\<close> returns the
  error \<^verbatim>\<open>ServiceID is required ...\<close>; the only change to the state is \<^verbatim>\<open>ensureClient\<close>
  on the provider, so the log of exchanges is the one before the call.
\<close>


theorem ServiceID_empty_fails:
  "ServiceID (provider st) = [] \<Longrightarrow>
     AppendRecords env fuel zone recs st =
       (Some (Inl (Error ServiceID_required)), st\<lparr>provider := ensureClient (provider st)\<rparr>) \<and>
     DeleteRecords env fuel zone recs st =
       (Some (Inl (Error ServiceID_required)), st\<lparr>provider := ensureClient (provider st)\<rparr>) \<and>
     GetRecords env fuel zone st =
       (Some (Inl (Error ServiceID_required)), st\<lparr>provider := ensureClient (provider st)\<rparr>) \<and>
     log (st\<lparr>provider := ensureClient (provider st)\<rparr>) = log st"
  by (simp add: AppendRecords_def DeleteRecords_def GetRecords_def ensureClient_fields)

text \<open>The theorem at a provider without service identifier, against the scripted service.\<close>

theorem ServiceID_empty_fails_witness:
  "ServiceID (provider (demo_state (demo_provider\<lparr>ServiceID := []\<rparr>) Map.empty)) = [] \<and>
   fst (AppendRecords (demo_env 204 [[item1]]) 1 ''example.com'' [TXT_ptr 0]
          (demo_state (demo_provider\<lparr>ServiceID := []\<rparr>) Map.empty)) =
     Some (Inl (Error ServiceID_required)) \<and>
   fst (DeleteRecords (demo_env 204 [[item1]]) 1 ''example.com'' [TXT_ptr 0]
          (demo_state (demo_provider\<lparr>ServiceID := []\<rparr>) Map.empty)) =
     Some (Inl (Error ServiceID_required)) \<and>
   fst (GetRecords (demo_env 204 [[item1]]) 1 ''example.com''
          (demo_state (demo_provider\<lparr>ServiceID := []\<rparr>) Map.empty)) =
     Some (Inl (Error ServiceID_required)) \<and>
   log (snd (GetRecords (demo_env 204 [[item1]]) 1 ''example.com''
          (demo_state (demo_provider\<lparr>ServiceID := []\<rparr>) Map.empty))) = []"
  using ServiceID_empty_fails [of "demo_state (demo_provider\<lparr>ServiceID := []\<rparr>) Map.empty"
      "demo_env 204 [[item1]]" 1 "''example.com''" "[TXT_ptr 0]"]
  by (simp add: demo_state_def demo_provider_def)

text \<open>
  The claim as stated fails: with an empty API key and an empty API secret (and the service
  identifier \<^verbatim>\<open>42\<close>) \<^verbatim>\<open>GetRecords\<close> sends its request and returns the listed record.
\<close>

theorem empty_credentials_counterexample:
  "APIKey (demo_provider\<lparr>APIKey := [], APISecret := []\<rparr>) = [] \<and>
   APISecret (demo_provider\<lparr>APIKey := [], APISecret := []\<rparr>) = [] \<and>
   fst (GetRecords (demo_env 204 [[item1]]) (Suc 0) ''example.com''
          (demo_state (demo_provider\<lparr>APIKey := [], APISecret := []\<rparr>) Map.empty)) =
     Some (Inr [txt_of_item item1]) \<and>
   length (log (snd (GetRecords (demo_env 204 [[item1]]) (Suc 0) ''example.com''
          (demo_state (demo_provider\<lparr>APIKey := [], APISecret := []\<rparr>) Map.empty)))) = 1"
  by (simp add: demo_defs Let_def)

section \<open>C5: the walk over the pages\<close>

text \<open>
  Claim C5: \<^verbatim>\<open>GetRecords\<close> requests the listing one page at a time, from page 1 with
  \<^verbatim>\<open>rowsPerPage=100\<close>, and stops exactly when a decoded response has
  \<^verbatim>\<open>currentPage >= totalPages\<close>; against a service that reports three pages and echoes
  the requested page, exactly three requests are issued. Stated in three parts: a call
  that returns records has logged a complete \<open>page_walk\<close> from page 1; a call still
  running when the fuel is used up has spent every unit on a request whose response
  reported a further page; and against an \<open>echo_server\<close> of three pages, any fuel of at
  least three makes the call return after exactly three exchanges.
\<close>


theorem GetRecords_page_walk:
  "(GetRecords env fuel zone st = (Some (Inr recs), st') \<longrightarrow>
      (\<exists>new. log st' = log st @ new \<and> page_walk env (provider st) 1 new)) \<and>
   (GetRecords env fuel zone st = (None, st') \<longrightarrow>
      (\<exists>new. log st' = log st @ new \<and> length new = fuel \<and>
         (\<forall>e \<in> set new. \<exists>l. decoded env e = Some l \<and> CurrentPage l < TotalPages l))) \<and>
   (echo_server env (provider st) 3 \<and> ServiceID (provider st) \<noteq> [] \<and> 3 \<le> fuel \<longrightarrow>
      (\<exists>recs st' new. GetRecords env fuel zone st = (Some (Inr recs), st') \<and>
         log st' = log st @ new \<and> length new = 3))"
proof (intro conjI impI)
  let ?st = "st\<lparr>provider := ensureClient (provider st)\<rparr>"
  {
    assume g: "GetRecords env fuel zone st = (Some (Inr recs), st')"
    then have "GetRecords_loop env fuel 1 [] ?st = (Some (Inr recs), st')"
      by (auto simp: GetRecords_def Let_def split: if_splits)
    from GetRecords_loop_walk[OF this]
    obtain new where "log st' = log st @ new" "page_walk env (ensureClient (provider st)) 1 new"
      by auto
    then show "\<exists>new. log st' = log st @ new \<and> page_walk env (provider st) 1 new"
      by (auto simp: page_walk_cong[OF ensureClient_fields(1-4)])
  }
  {
    assume g: "GetRecords env fuel zone st = (None, st')"
    then have "GetRecords_loop env fuel 1 [] ?st = (None, st')"
      by (auto simp: GetRecords_def Let_def split: if_splits)
    from GetRecords_loop_running[OF this]
    show "\<exists>new. log st' = log st @ new \<and> length new = fuel \<and>
         (\<forall>e \<in> set new. \<exists>l. decoded env e = Some l \<and> CurrentPage l < TotalPages l)"
      by simp
  }
  {
    assume a: "echo_server env (provider st) 3 \<and> ServiceID (provider st) \<noteq> [] \<and> 3 \<le> fuel"
    then have e: "echo_server env (ensureClient (provider st)) 3"
      by (simp add: echo_server_cong[OF ensureClient_fields(3,4)])
    obtain c where c: "HTTPClient (ensureClient (provider st)) = Some c"
      using ensureClient_fields(5) by blast
    have "\<exists>recs st' new. GetRecords_loop env fuel 1 [] ?st = (Some (Inr recs), st') \<and>
            log st' = log ?st @ new \<and> length new = Suc (nat (3 - 1))"
      using a by (intro GetRecords_loop_echo[OF e c]) auto
    then show "\<exists>recs st' new. GetRecords env fuel zone st = (Some (Inr recs), st') \<and>
         log st' = log st @ new \<and> length new = 3"
      using a by (simp add: GetRecords_def Let_def ensureClient_fields)
  }
qed

text \<open>
  The scripted service with three pages is such an echo server; the call returns after
  three exchanges, which form a complete walk.
\<close>

theorem GetRecords_page_walk_witness:
  "echo_server (demo_env 204 [[item1], [item2], []]) demo_provider 3 \<and>
   ServiceID demo_provider \<noteq> [] \<and>
   (\<exists>recs st' new.
      GetRecords (demo_env 204 [[item1], [item2], []]) 3 ''example.com''
        (demo_state demo_provider Map.empty) = (Some (Inr recs), st') \<and>
      log st' = new \<and> length new = 3 \<and>
      page_walk (demo_env 204 [[item1], [item2], []]) demo_provider 1 new)"
proof -
  let ?E = "demo_env 204 [[item1], [item2], []]"
  let ?S = "demo_state demo_provider Map.empty"
  have d: "Do ?E c req w = (Inr \<lparr>StatusCode = 200, Status = ''200 OK'', RespBody = fmt_d k\<rparr>, w + 1) \<and>
           Decode ?E (fmt_d k) =
             Inr \<lparr>CurrentPage = k, TotalPages = 3, TotalRecords = 0,
                  Data = [[item1], [item2], []] ! nat (k - 1)\<rparr>"
    if "k = 1 \<or> k = 2 \<or> k = 3" "Method req = ''GET''"
       "URL req = APIBase demo_provider @ ''/service/'' @ ServiceID demo_provider @
                  ''/dns/record?page='' @ fmt_d k @ ''&rowsPerPage=100''"
    for k :: int and c :: Client and req :: Request and w :: nat
    using that
    by (auto simp: demo_env_def demo_Do_def demo_provider_def list_urlPath_def fmt_d_def
        digits10_eval digit_char_def)
  have e: "echo_server ?E demo_provider 3"
    unfolding echo_server_def
  proof (intro ballI conjI allI impI)
    fix k :: int assume "k \<in> {1..3}"
    then have k: "k = 1 \<or> k = 2 \<or> k = 3" by auto
    show "NewRequest_error ?E ''GET''
            (APIBase demo_provider @ ''/service/'' @ ServiceID demo_provider @
             ''/dns/record?page='' @ fmt_d k @ ''&rowsPerPage=100'') = None"
      by (simp add: demo_env_def)
    fix c :: Client and req :: Request and w :: nat
    assume "Method req = ''GET'' \<and>
            URL req = APIBase demo_provider @ ''/service/'' @ ServiceID demo_provider @
                      ''/dns/record?page='' @ fmt_d k @ ''&rowsPerPage=100''"
    with d[OF k, of req c w]
    show "\<exists>resp w' l. Do ?E c req w = (Inr resp, w') \<and> StatusCode resp = 200 \<and>
            Decode ?E (RespBody resp) = Inr l \<and> CurrentPage l = k \<and> TotalPages l = 3"
      by simp
  qed
  have p: "provider ?S = demo_provider" "log ?S = []"
    by (simp_all add: demo_state_def)
  have s: "ServiceID demo_provider \<noteq> []"
    by (simp add: demo_provider_def)
  have "\<exists>recs st' new. GetRecords ?E 3 ''example.com'' ?S = (Some (Inr recs), st') \<and>
          log st' = log ?S @ new \<and> length new = 3"
    using GetRecords_page_walk[of ?E 3 "''example.com''" ?S "[]" ?S, THEN conjunct2, THEN conjunct2]
      e s p
    by simp
  then obtain recs st' new where g:
    "GetRecords ?E 3 ''example.com'' ?S = (Some (Inr recs), st')" "log st' = new" "length new = 3"
    using p by auto
  have "\<exists>new. log st' = log ?S @ new \<and> page_walk ?E (provider ?S) 1 new"
    using GetRecords_page_walk[of ?E 3 "''example.com''" ?S recs st', THEN conjunct1] g(1)
    by simp
  then have "page_walk ?E demo_provider 1 new"
    using g(2) p by simp
  with e s g show ?thesis
    by blast
qed


section \<open>C8: only TXT records are returned\<close>

text \<open>
  Claim C8: every record \<^verbatim>\<open>GetRecords\<close> returns is a TXT record; an entry of any page whose
  type is not \<^verbatim>\<open>TXT\<close> is dropped and never appears in the output. The records returned
  are, in order, the records built from the items of type \<^verbatim>\<open>TXT\<close> of the listings received
  during the call, and nothing else.
\<close>

theorem GetRecords_only_TXT:
  "GetRecords env fuel zone st = (Some (Inr recs), st') \<Longrightarrow>
     \<exists>new. log st' = log st @ new \<and>
           recs = map txt_of_item
                    (filter (\<lambda>item. Type item = ''TXT'') (concat (map (listed_items env) new)))"
proof -
  assume "GetRecords env fuel zone st = (Some (Inr recs), st')"
  then have "GetRecords_loop env fuel 1 [] (st\<lparr>provider := ensureClient (provider st)\<rparr>) =
               (Some (Inr recs), st')"
    by (auto simp: GetRecords_def Let_def split: if_splits)
  from GetRecords_loop_walk[OF this] show ?thesis
    by auto
qed

text \<open>
  A run against a one-page listing holding a TXT item and an A item: both are listed, the
  call returns the TXT record only.
\<close>

theorem GetRecords_only_TXT_witness:
  "fst (GetRecords (demo_env 204 [[item1, item2]]) (Suc 0) ''example.com''
          (demo_state demo_provider Map.empty)) = Some (Inr [txt_of_item item1]) \<and>
   (\<exists>new. log (snd (GetRecords (demo_env 204 [[item1, item2]]) (Suc 0) ''example.com''
                       (demo_state demo_provider Map.empty))) = new \<and>
      concat (map (listed_items (demo_env 204 [[item1, item2]])) new) = [item1, item2] \<and>
      Type item2 \<noteq> ''TXT'' \<and>
      [txt_of_item item1] =
        map txt_of_item
          (filter (\<lambda>item. Type item = ''TXT'')
             (concat (map (listed_items (demo_env 204 [[item1, item2]])) new))))"
proof -
  let ?E = "demo_env 204 [[item1, item2]]"
  let ?S = "demo_state demo_provider Map.empty"
  let ?g = "GetRecords ?E (Suc 0) ''example.com'' ?S"
  have f: "fst ?g = Some (Inr [txt_of_item item1])"
    by (simp add: demo_defs Let_def)
  have l: "concat (map (listed_items ?E) (log (snd ?g))) = [item1, item2]"
    by (simp add: demo_defs Let_def listed_items_def decoded_def)
  have t: "Type item2 \<noteq> ''TXT''"
    by (simp add: item2_def)
  from f have "?g = (Some (Inr [txt_of_item item1]), snd ?g)"
    by (metis prod.collapse)
  from GetRecords_only_TXT[OF this] have
    "[txt_of_item item1] =
        map txt_of_item
          (filter (\<lambda>item. Type item = ''TXT'') (concat (map (listed_items ?E) (log (snd ?g)))))"
    by (simp add: demo_state_def)
  with f l t show ?thesis
    by simp
qed

section \<open>C4: unversioned request path, versioned signed path\<close>

text \<open>
  Claim C4: for every outbound request (create, delete, list) the path appended to the base
  URL has no \<^verbatim>\<open>/v2\<close> prefix, the path the signature is computed over has it, and for the
  listing the signed path leaves the query string out. Every exchange that any of the three
  operations adds to the log has a request of the shape \<open>versioned_signature\<close>.
\<close>


theorem requests_versioned_signature:
  "(\<exists>new. log (snd (AppendRecords env fuel zone recs st)) = log st @ new \<and>
      (\<forall>e \<in> set new. versioned_signature env (provider st) (fst e))) \<and>
   (\<exists>new. log (snd (DeleteRecords env fuel zone recs st)) = log st @ new \<and>
      (\<forall>e \<in> set new. versioned_signature env (provider st) (fst e))) \<and>
   (\<exists>new. log (snd (GetRecords env fuel zone st)) = log st @ new \<and>
      (\<forall>e \<in> set new. versioned_signature env (provider st) (fst e)))"
proof (intro conjI)
  let ?st = "st\<lparr>provider := ensureClient (provider st)\<rparr>"
  have c: "versioned_signature env (provider ?st) = versioned_signature env (provider st)"
    by (rule ext) (simp add: versioned_signature_cong[OF credentials_ensureClient])
  show "\<exists>new. log (snd (AppendRecords env fuel zone recs st)) = log st @ new \<and>
      (\<forall>e \<in> set new. versioned_signature env (provider st) (fst e))"
  proof (cases "ServiceID (provider st) = []")
    case True
    then show ?thesis by (simp add: AppendRecords_def Let_def ensureClient_fields)
  next
    case False
    then have "AppendRecords env fuel zone recs st = AppendRecords_loop env fuel zone recs [] ?st"
      by (simp add: AppendRecords_def Let_def ensureClient_fields)
    with AppendRecords_loop_log[of env fuel zone recs "[]" ?st, OF surjective_pairing] c
    show ?thesis by simp
  qed
  show "\<exists>new. log (snd (DeleteRecords env fuel zone recs st)) = log st @ new \<and>
      (\<forall>e \<in> set new. versioned_signature env (provider st) (fst e))"
  proof (cases "ServiceID (provider st) = []")
    case True
    then show ?thesis by (simp add: DeleteRecords_def Let_def ensureClient_fields)
  next
    case False
    then have "DeleteRecords env fuel zone recs st = DeleteRecords_loop env fuel zone recs [] ?st"
      by (simp add: DeleteRecords_def Let_def ensureClient_fields)
    with DeleteRecords_loop_log[of env fuel zone recs "[]" ?st, OF surjective_pairing] c
    show ?thesis by simp
  qed
  show "\<exists>new. log (snd (GetRecords env fuel zone st)) = log st @ new \<and>
      (\<forall>e \<in> set new. versioned_signature env (provider st) (fst e))"
    using GetRecords_log[of env fuel zone st, OF surjective_pairing] by simp
qed


text \<open>
  The three operations against the scripted service: the exchanges logged carry the URLs
  below, and each of them has the shape the theorem states.
\<close>

theorem requests_versioned_signature_witness:
  "map (\<lambda>e. (Method (fst e), URL (fst e)))
     (log (snd (AppendRecords (demo_env 204 [[item1]]) (Suc 0) ''example.com'' [TXT_ptr 0]
                  (demo_state demo_provider demo_heap)))) =
     [(''POST'', ''https://rest.websupport.sk/v2/service/42/dns/record''),
      (''GET'', ''https://rest.websupport.sk/v2/service/42/dns/record?page=1&rowsPerPage=100'')] \<and>
   list_all (\<lambda>e. versioned_signature (demo_env 204 [[item1]]) demo_provider (fst e))
     (log (snd (AppendRecords (demo_env 204 [[item1]]) (Suc 0) ''example.com'' [TXT_ptr 0]
                  (demo_state demo_provider demo_heap)))) \<and>
   map (\<lambda>e. (Method (fst e), URL (fst e)))
     (log (snd (DeleteRecords (demo_env 204 [[item1]]) (Suc 0) ''example.com'' [TXT_ptr 1]
                  (demo_state demo_provider demo_heap)))) =
     [(''DELETE'', ''https://rest.websupport.sk/v2/service/42/dns/record/7'')] \<and>
   list_all (\<lambda>e. versioned_signature (demo_env 204 [[item1]]) demo_provider (fst e))
     (log (snd (DeleteRecords (demo_env 204 [[item1]]) (Suc 0) ''example.com'' [TXT_ptr 1]
                  (demo_state demo_provider demo_heap)))) \<and>
   map (\<lambda>e. (Method (fst e), URL (fst e)))
     (log (snd (GetRecords (demo_env 204 [[item1]]) (Suc 0) ''example.com''
                  (demo_state demo_provider demo_heap)))) =
     [(''GET'', ''https://rest.websupport.sk/v2/service/42/dns/record?page=1&rowsPerPage=100'')] \<and>
   list_all (\<lambda>e. versioned_signature (demo_env 204 [[item1]]) demo_provider (fst e))
     (log (snd (GetRecords (demo_env 204 [[item1]]) (Suc 0) ''example.com''
                  (demo_state demo_provider demo_heap))))"
proof -
  let ?E = "demo_env 204 [[item1]]"
  let ?S = "demo_state demo_provider demo_heap"
  have S: "log ?S = []" "provider ?S = demo_provider"
    by (simp_all add: demo_state_def)
  have a: "map (\<lambda>e. (Method (fst e), URL (fst e)))
     (log (snd (AppendRecords ?E (Suc 0) ''example.com'' [TXT_ptr 0] ?S))) =
     [(''POST'', ''https://rest.websupport.sk/v2/service/42/dns/record''),
      (''GET'', ''https://rest.websupport.sk/v2/service/42/dns/record?page=1&rowsPerPage=100'')]"
    by (simp add: demo_defs AppendRecords_def AppendRecords_body_def demo_heap_def
        create_urlPath_def create_sigPath_def Let_def)
  have d: "map (\<lambda>e. (Method (fst e), URL (fst e)))
     (log (snd (DeleteRecords ?E (Suc 0) ''example.com'' [TXT_ptr 1] ?S))) =
     [(''DELETE'', ''https://rest.websupport.sk/v2/service/42/dns/record/7'')]"
    by (simp add: demo_defs DeleteRecords_def DeleteRecords_body_def resolve_id_def demo_heap_def
        delete_urlPath_def delete_sigPath_def Let_def)
  have g: "map (\<lambda>e. (Method (fst e), URL (fst e)))
     (log (snd (GetRecords ?E (Suc 0) ''example.com'' ?S))) =
     [(''GET'', ''https://rest.websupport.sk/v2/service/42/dns/record?page=1&rowsPerPage=100'')]"
    by (simp add: demo_defs Let_def)
  have va: "list_all (\<lambda>e. versioned_signature ?E demo_provider (fst e))
     (log (snd (AppendRecords ?E (Suc 0) ''example.com'' [TXT_ptr 0] ?S)))"
    using requests_versioned_signature[of ?E "Suc 0" "''example.com''" "[TXT_ptr 0]" ?S, THEN conjunct1]
    by (simp add: S list_all_iff)
  have vd: "list_all (\<lambda>e. versioned_signature ?E demo_provider (fst e))
     (log (snd (DeleteRecords ?E (Suc 0) ''example.com'' [TXT_ptr 1] ?S)))"
    using requests_versioned_signature[of ?E "Suc 0" "''example.com''" "[TXT_ptr 1]" ?S,
        THEN conjunct2, THEN conjunct1]
    by (simp add: S list_all_iff)
  have vg: "list_all (\<lambda>e. versioned_signature ?E demo_provider (fst e))
     (log (snd (GetRecords ?E (Suc 0) ''example.com'' ?S)))"
    using requests_versioned_signature[of ?E "Suc 0" "''example.com''" "[]" ?S,
        THEN conjunct2, THEN conjunct2]
    by (simp add: S list_all_iff)
  from a va d vd g vg show ?thesis
    by (intro conjI)
qed

section \<open>C6: creation succeeds on 204 only, and the batch fails fast\<close>

text \<open>
  Claim C6: \<^verbatim>\<open>AppendRecords\<close> treats only status 204 as success; any other status fails
  the whole batch at once with an error carrying the response's status and body, no
  creation request is issued for the remaining records, and when all \<open>N\<close> TXT records
  succeed exactly \<open>N\<close> creation requests are issued. First part: wherever the loop stands
  (any records \<open>created\<close> so far, any state), when the creation request for the next TXT
  record is answered with a status other than 204, the loop returns that error and the
  final log ends with this very exchange, whatever records remain. Second part: a call
  that returns records returns the TXT records of the input, has issued exactly as many
  creation requests, and each of them was answered with 204.
\<close>


theorem AppendRecords_fail_fast:
  "(heap st a = Some r0 \<and> HTTPClient (provider st) = Some c \<and>
    NewRequest_error env ''POST''
      (APIBase (provider st) @ ''/service/'' @ ServiceID (provider st) @ ''/dns/record'') = None \<and>
    Do env c (create_request env (provider st) (default_TTL r0) (world st)) (world st) =
      (Inr resp, w') \<and>
    StatusCode resp \<noteq> 204 \<longrightarrow>
    AppendRecords_loop env fuel zone (TXT_ptr a # recs) created st =
      (Some (Inl (Error (''failed to create record: '' @ Status resp @ '', body: '' @ RespBody resp))),
       st\<lparr>heap := (heap st)(a \<mapsto> default_TTL r0), world := w',
          log := log st @ [(create_request env (provider st) (default_TTL r0) (world st), Inr resp)]\<rparr>)) \<and>
   (AppendRecords env fuel zone recs st = (Some (Inr cr), st') \<longrightarrow>
    (\<exists>new. log st' = log st @ new \<and> cr = filter is_TXT_ptr recs \<and>
       length (posts new) = length (filter is_TXT_ptr recs) \<and>
       (\<forall>e \<in> set (posts new). \<exists>resp. snd e = Inr resp \<and> StatusCode resp = 204)))"
proof (intro conjI impI)
  assume "heap st a = Some r0 \<and> HTTPClient (provider st) = Some c \<and>
    NewRequest_error env ''POST''
      (APIBase (provider st) @ ''/service/'' @ ServiceID (provider st) @ ''/dns/record'') = None \<and>
    Do env c (create_request env (provider st) (default_TTL r0) (world st)) (world st) =
      (Inr resp, w') \<and>
    StatusCode resp \<noteq> 204"
  then show "AppendRecords_loop env fuel zone (TXT_ptr a # recs) created st =
      (Some (Inl (Error (''failed to create record: '' @ Status resp @ '', body: '' @ RespBody resp))),
       st\<lparr>heap := (heap st)(a \<mapsto> default_TTL r0), world := w',
          log := log st @ [(create_request env (provider st) (default_TTL r0) (world st), Inr resp)]\<rparr>)"
    by (elim conjE) (rule AppendRecords_loop_status; assumption)
next
  assume a: "AppendRecords env fuel zone recs st = (Some (Inr cr), st')"
  then have "AppendRecords_loop env fuel zone recs [] (st\<lparr>provider := ensureClient (provider st)\<rparr>) =
               (Some (Inr cr), st')"
    by (auto simp: AppendRecords_def Let_def split: if_splits)
  from AppendRecords_loop_posts[OF this]
  show "\<exists>new. log st' = log st @ new \<and> cr = filter is_TXT_ptr recs \<and>
       length (posts new) = length (filter is_TXT_ptr recs) \<and>
       (\<forall>e \<in> set (posts new). \<exists>resp. snd e = Inr resp \<and> StatusCode resp = 204)"
    by simp
qed


text \<open>
  Against a service that answers creation with 401, a batch of two records stops after one
  exchange, the rejected creation request; against one that answers 204, a batch of two
  TXT records and one other record returns the two and has issued two creation requests.
\<close>

theorem AppendRecords_fail_fast_witness:
  "StatusCode \<lparr>StatusCode = 401, Status = ''401'', RespBody = ''{}''\<rparr> \<noteq> 204 \<and>
   fst (AppendRecords_loop (demo_env 401 [[item1]]) (Suc 0) ''example.com''
          [TXT_ptr 0, TXT_ptr 1] []
          (demo_state (ensureClient demo_provider) demo_heap)) =
     Some (Inl (Error ''failed to create record: 401, body: {}'')) \<and>
   map (\<lambda>e. Method (fst e))
     (log (snd (AppendRecords_loop (demo_env 401 [[item1]]) (Suc 0) ''example.com''
                  [TXT_ptr 0, TXT_ptr 1] []
                  (demo_state (ensureClient demo_provider) demo_heap)))) = [''POST''] \<and>
   fst (AppendRecords (demo_env 204 [[item1]]) (Suc 0) ''example.com''
          [TXT_ptr 0, Other_record, TXT_ptr 1] (demo_state demo_provider demo_heap)) =
     Some (Inr [TXT_ptr 0, TXT_ptr 1]) \<and>
   length (posts (log (snd (AppendRecords (demo_env 204 [[item1]]) (Suc 0) ''example.com''
          [TXT_ptr 0, Other_record, TXT_ptr 1] (demo_state demo_provider demo_heap))))) = 2"
proof -
  let ?E = "demo_env 401 [[item1]]"
  let ?S = "demo_state (ensureClient demo_provider) demo_heap"
  let ?r0 = "\<lparr>Name = ''_acme-challenge'', TTL = 0, Text = ''tok'', ProviderData = any_nil\<rparr>"
  let ?c = "\<lparr>Transport = 0, client_Timeout = 30 * Second\<rparr>"
  let ?resp = "\<lparr>StatusCode = 401, Status = ''401'', RespBody = ''{}''\<rparr>"
  have h: "heap ?S 0 = Some ?r0 \<and> HTTPClient (provider ?S) = Some ?c \<and>
    NewRequest_error ?E ''POST''
      (APIBase (provider ?S) @ ''/service/'' @ ServiceID (provider ?S) @ ''/dns/record'') = None \<and>
    Do ?E ?c (create_request ?E (provider ?S) (default_TTL ?r0) (world ?S)) (world ?S) =
      (Inr ?resp, 1001) \<and>
    StatusCode ?resp \<noteq> 204"
    by (simp add: demo_state_def demo_heap_def demo_provider_def ensureClient_def demo_env_def
        demo_Do_def create_request_def fmt_d_def digits10_eval digit_char_def)
  note t1 = AppendRecords_fail_fast[of "?S" 0 ?r0 ?c ?E ?resp 1001 "Suc 0" "''example.com''"
      "[TXT_ptr 1]" "[]", THEN conjunct1, rule_format, OF h]
  have f1: "fst (AppendRecords_loop ?E (Suc 0) ''example.com'' [TXT_ptr 0, TXT_ptr 1] [] ?S) =
     Some (Inl (Error ''failed to create record: 401, body: {}''))"
    by (simp only: t1 fst_conv) simp
  have l1: "map (\<lambda>e. Method (fst e))
     (log (snd (AppendRecords_loop ?E (Suc 0) ''example.com'' [TXT_ptr 0, TXT_ptr 1] [] ?S))) =
     [''POST'']"
    by (simp only: t1 snd_conv) (simp add: demo_state_def create_request_def)
  let ?E2 = "demo_env 204 [[item1]]"
  let ?S2 = "demo_state demo_provider demo_heap"
  let ?run = "AppendRecords ?E2 (Suc 0) ''example.com'' [TXT_ptr 0, Other_record, TXT_ptr 1] ?S2"
  have f2: "fst ?run = Some (Inr [TXT_ptr 0, TXT_ptr 1])"
    by (simp add: demo_defs AppendRecords_def AppendRecords_body_def demo_heap_def
        create_urlPath_def create_sigPath_def Let_def)
  then have "?run = (Some (Inr [TXT_ptr 0, TXT_ptr 1]), snd ?run)"
    by (metis prod.collapse)
  from AppendRecords_fail_fast[where st = ?S2 and env = ?E2 and fuel = "Suc 0" and
      zone = "''example.com''" and recs = "[TXT_ptr 0, Other_record, TXT_ptr 1]" and
      cr = "[TXT_ptr 0, TXT_ptr 1]" and st' = "snd ?run", THEN conjunct2, rule_format, OF this]
  have l2: "length (posts (log (snd ?run))) = 2"
    by (simp add: demo_state_def)
  from h f1 l1 f2 l2 show ?thesis
    by simp
qed

section \<open>C1: the identifier of a created record\<close>





section \<open>C7: the identifier of a record to delete\<close>




section \<open>C10: the \<^verbatim>\<open>Timeout\<close> field\<close>

text \<open>
  Claim C10: when no HTTP client was supplied, the client created on first use has the fixed
  timeout of 30 seconds, whatever the caller put into \<^verbatim>\<open>Provider.Timeout\<close>; the field is
  never consulted when requests are issued, so setting it has no effect on any operation.
  First the client that \<^verbatim>\<open>ensureClient\<close> creates; then, for each operation, the run from
  a state whose \<^verbatim>\<open>Timeout\<close> was set to any \<open>t\<close>: it returns what the run from the original
  state returns, and ends in the same state but for the \<^verbatim>\<open>Timeout\<close> field itself (which
  \<^verbatim>\<open>ensureClient\<close> leaves at \<open>t\<close>, or at 30 seconds when \<open>t\<close> is zero).
\<close>


theorem Timeout_never_consulted:
  "(HTTPClient p = None \<longrightarrow>
      HTTPClient (ensureClient (p\<lparr>Timeout := t\<rparr>)) =
        Some \<lparr>Transport = 0, client_Timeout = 30 * Second\<rparr>) \<and>
   AppendRecords env fuel zone recs (with_Timeout t st) =
     (case AppendRecords env fuel zone recs st of
        (r, st') \<Rightarrow> (r, with_Timeout (if t = 0 then 30 * Second else t) st')) \<and>
   DeleteRecords env fuel zone recs (with_Timeout t st) =
     (case DeleteRecords env fuel zone recs st of
        (r, st') \<Rightarrow> (r, with_Timeout (if t = 0 then 30 * Second else t) st')) \<and>
   GetRecords env fuel zone (with_Timeout t st) =
     (case GetRecords env fuel zone st of
        (r, st') \<Rightarrow> (r, with_Timeout (if t = 0 then 30 * Second else t) st'))"
proof (intro conjI impI)
  assume "HTTPClient p = None"
  then show "HTTPClient (ensureClient (p\<lparr>Timeout := t\<rparr>)) =
        Some \<lparr>Transport = 0, client_Timeout = 30 * Second\<rparr>"
    by (simp add: ensureClient_def Let_def)
next
  have nz: "(if t = 0 then 30 * Second else t) \<noteq> 0"
    using Second_30 by simp
  show "AppendRecords env fuel zone recs (with_Timeout t st) =
     (case AppendRecords env fuel zone recs st of
        (r, st') \<Rightarrow> (r, with_Timeout (if t = 0 then 30 * Second else t) st'))"
    unfolding AppendRecords_def Let_def ensure_with_Timeout
    by (simp add: with_Timeout_simps(1-4) ensureClient_fields AppendRecords_loop_Timeout[OF nz])
  show "DeleteRecords env fuel zone recs (with_Timeout t st) =
     (case DeleteRecords env fuel zone recs st of
        (r, st') \<Rightarrow> (r, with_Timeout (if t = 0 then 30 * Second else t) st'))"
    unfolding DeleteRecords_def Let_def ensure_with_Timeout
    by (simp add: with_Timeout_simps(1-4) ensureClient_fields DeleteRecords_loop_Timeout[OF nz])
  show "GetRecords env fuel zone (with_Timeout t st) =
     (case GetRecords env fuel zone st of
        (r, st') \<Rightarrow> (r, with_Timeout (if t = 0 then 30 * Second else t) st'))"
    by (rule GetRecords_Timeout)
qed

text \<open>A provider without client and with a timeout of five seconds.\<close>

theorem Timeout_never_consulted_witness:
  "HTTPClient demo_provider = None \<and>
   HTTPClient (ensureClient (demo_provider\<lparr>Timeout := 5 * Second\<rparr>)) =
     Some \<lparr>Transport = 0, client_Timeout = 30 * Second\<rparr> \<and>
   fst (GetRecords (demo_env 204 [[item1]]) (Suc 0) ''example.com''
          (with_Timeout (5 * Second) (demo_state demo_provider demo_heap))) =
     Some (Inr [txt_of_item item1])"
proof -
  have n: "HTTPClient demo_provider = None"
    by (simp add: demo_provider_def)
  have "fst (GetRecords (demo_env 204 [[item1]]) (Suc 0) ''example.com''
          (demo_state demo_provider demo_heap)) = Some (Inr [txt_of_item item1])"
    by (simp add: demo_defs Let_def)
  then have g: "fst (GetRecords (demo_env 204 [[item1]]) (Suc 0) ''example.com''
          (with_Timeout (5 * Second) (demo_state demo_provider demo_heap))) =
     Some (Inr [txt_of_item item1])"
    using Timeout_never_consulted[where env = "demo_env 204 [[item1]]" and fuel = "Suc 0" and
        zone = "''example.com''" and t = "5 * Second" and st = "demo_state demo_provider demo_heap",
        THEN conjunct2, THEN conjunct2, THEN conjunct2]
    by (simp add: split_beta)
  from n g Timeout_never_consulted[where p = demo_provider and t = "5 * Second", THEN conjunct1]
  show ?thesis
    by blast
qed

section \<open>C3: the signature\<close>

text \<open>
  Claim C3: the signature is the lowercase hexadecimal HMAC-SHA1, keyed by the API secret,
  of the method, the signed path and the Unix timestamp joined by single spaces, and two
  computations from the same method, path, secret and timestamp give the same bytes. The
  keyed hash is the environment's; the theorem says what it is applied to (the key is the
  secret, the message the three parts with the timestamp in decimal), that the result
  consists of the digits \<^verbatim>\<open>0-9a-f\<close> and reads back, pair by pair, as the bytes of the hash,
  that it depends on no field of the provider but the secret, and gives the message of
  the specification's test vector.
\<close>


theorem calculateSignature_hmac_hex:
  "calculateSignature env p method path timestamp =
     EncodeToString (hmac_sha1 env (APISecret p) (method @ '' '' @ path @ '' '' @ fmt_d timestamp)) \<and>
   set (calculateSignature env p method path timestamp) \<subseteq> set ''0123456789abcdef'' \<and>
   hex_decode (calculateSignature env p method path timestamp) =
     hmac_sha1 env (APISecret p) (method @ '' '' @ path @ '' '' @ fmt_d timestamp) \<and>
   (APISecret p' = APISecret p \<longrightarrow>
      calculateSignature env p' method path timestamp =
        calculateSignature env p method path timestamp) \<and>
   ''POST'' @ '' '' @ ''/v2/service/42/dns/record'' @ '' '' @ fmt_d 1000 =
     ''POST /v2/service/42/dns/record 1000''"
proof -
  have "fmt_d 1000 = ''1000''"
    by (simp add: fmt_d_def digits10_eval digit_char_def)
  then show ?thesis
    using EncodeToString_lowercase
    by (simp add: calculateSignature_def hex_decode_EncodeToString del: set_simps)
qed

text \<open>
  With the stand-in hash of the scripted service (the bytes of key and message), for a
  provider and one that differs in key and timeout but not in the secret.
\<close>

theorem calculateSignature_hmac_hex_witness:
  "APISecret (demo_provider\<lparr>APIKey := ''other'', Timeout := 1\<rparr>) = APISecret demo_provider \<and>
   calculateSignature (demo_env 204 []) (demo_provider\<lparr>APIKey := ''other'', Timeout := 1\<rparr>)
     ''GET'' ''/p'' 7 =
   calculateSignature (demo_env 204 []) demo_provider ''GET'' ''/p'' 7 \<and>
   calculateSignature (demo_env 204 []) demo_provider ''GET'' ''/p'' 7 = ''737c474554202f702037''"
proof -
  have s: "APISecret (demo_provider\<lparr>APIKey := ''other'', Timeout := 1\<rparr>) = APISecret demo_provider"
    by simp
  have c: "hmac_sha1 (demo_env 204 []) (APISecret demo_provider) (''GET'' @ '' '' @ ''/p'' @ '' '' @ fmt_d 7) =
           map of_char ''s|GET /p 7''"
    by (simp add: demo_env_def demo_hmac_def demo_provider_def fmt_d_def digits10_eval digit_char_def)
  have e: "EncodeToString (map of_char ''s|GET /p 7'') = ''737c474554202f702037''"
    by (simp add: hextable_def)
  note t = calculateSignature_hmac_hex[of "demo_env 204 []" demo_provider "''GET''" "''/p''" 7
      "demo_provider\<lparr>APIKey := ''other'', Timeout := 1\<rparr>"]
  from t[THEN conjunct1] c e
  have v: "calculateSignature (demo_env 204 []) demo_provider ''GET'' ''/p'' 7 = ''737c474554202f702037''"
    by (simp only:)
  from t[THEN conjunct2, THEN conjunct2, THEN conjunct2, THEN conjunct1, THEN mp, OF s] s v
  show ?thesis
    by blast
qed

section \<open>C9: the body of the creation request\<close>

text \<open>
  Claim C9 says that the body of the creation request is built by string interpolation
  without JSON escaping: the body is exactly
  \<^verbatim>\<open>{"type":"TXT","name":"<name>","content":"<text>","ttl":<TTL truncated to whole seconds>}\<close>,
  and for some record whose text contains a double quote it is not valid JSON. The number
  in the body is \<^verbatim>\<open>int(r.TTL.Seconds())\<close>, computed in float64, and this is the truncation
  only for durations below \<open>2 ^ 24\<close> seconds in magnitude. What holds, in three parts:
  every creation request logged by one iteration of \<^verbatim>\<open>AppendRecords\<close> carries the body
  \<open>create_body\<close> of the record after the default of 120 seconds has replaced a zero TTL;
  for every record, whatever its name and text, with a TTL below \<open>16777216\<close> seconds in
  magnitude this body is the \<open>interpolated_body\<close>, name and text verbatim and the TTL
  truncated to whole seconds; and there is a record with a double quote in its text whose
  body is not a well-formed JSON text.
\<close>


theorem create_body_interpolation:
  "(AppendRecords_body env fuel zone a st = (it, st') \<and> heap st a = Some r0 \<longrightarrow>
      (\<exists>new. log st' = log st @ new \<and>
         (\<forall>e \<in> set (posts new). Body (fst e) = Some (create_body (default_TTL r0))))) \<and>
   (\<bar>sint (TTL r)\<bar> < 16777216000000000 \<longrightarrow> create_body r = interpolated_body r) \<and>
   (\<exists>q. CHR 0x22 \<in> set (Text q) \<and> \<not> json_valid (create_body q))"
proof (intro conjI impI)
  assume "AppendRecords_body env fuel zone a st = (it, st') \<and> heap st a = Some r0"
  then show "\<exists>new. log st' = log st @ new \<and>
         (\<forall>e \<in> set (posts new). Body (fst e) = Some (create_body (default_TTL r0)))"
    by (elim conjE) (rule AppendRecords_body_bodies)
next
  assume "\<bar>sint (TTL r)\<bar> < 16777216000000000"
  then show "create_body r = interpolated_body r"
    by (rule create_body_truncated)
next
  let ?q = "\<lparr>Name = ''a'', TTL = 120 * Second, Text = ''x\"y'', ProviderData = any_nil\<rparr>"
  have "\<bar>sint (TTL ?q)\<bar> < 16777216000000000"
    by (simp add: Second_def)
  then have "create_body ?q = interpolated_body ?q"
    by (rule create_body_truncated)
  also have "\<dots> = ''{\"type\":\"TXT\",\"name\":\"a\",\"content\":\"x\"y\",\"ttl\":120}''"
    by (simp add: interpolated_body_def truncated_seconds_def Second_def signed_divide_int_def
        fmt_d_def digits10_eval digit_char_def)
  finally have "\<not> json_valid (create_body ?q)"
    by (simp add: json_valid_def json_skip_def json_ws_def json_number_def json_digits_def
        json_digit_def)
  moreover have "CHR 0x22 \<in> set (Text ?q)"
    by simp
  ultimately show "\<exists>q. CHR 0x22 \<in> set (Text q) \<and> \<not> json_valid (create_body q)"
    by blast
qed

text \<open>
  The theorem at the scripted service: the one creation request of the iteration for the
  record at address 0 (TTL zero, so 120 seconds), and a record of 1.999999999 seconds.
\<close>

theorem create_body_interpolation_witness:
  "list_all (\<lambda>e. Body (fst e) =
        Some ''{\"type\":\"TXT\",\"name\":\"_acme-challenge\",\"content\":\"tok\",\"ttl\":120}'')
     (posts (log (snd (AppendRecords_body (demo_env 204 [[item2, item1]]) (Suc 0) ''example.com'' 0
        (demo_state (ensureClient demo_provider) demo_heap))))) \<and>
   length (posts (log (snd (AppendRecords_body (demo_env 204 [[item2, item1]]) (Suc 0) ''example.com'' 0
        (demo_state (ensureClient demo_provider) demo_heap))))) = 1 \<and>
   create_body \<lparr>Name = ''a'', TTL = 1999999999, Text = ''b'', ProviderData = any_nil\<rparr> =
     ''{\"type\":\"TXT\",\"name\":\"a\",\"content\":\"b\",\"ttl\":1}''"
proof -
  let ?E = "demo_env 204 [[item2, item1]]"
  let ?S = "demo_state (ensureClient demo_provider) demo_heap"
  let ?rin = "\<lparr>Name = ''_acme-challenge'', TTL = 0, Text = ''tok'', ProviderData = any_nil\<rparr>"
  let ?r = "\<lparr>Name = ''_acme-challenge'', TTL = 120 * Second, Text = ''tok'', ProviderData = any_nil\<rparr>"
  let ?u = "\<lparr>Name = ''a'', TTL = 1999999999, Text = ''b'', ProviderData = any_nil\<rparr>"
  let ?X = "AppendRecords_body ?E (Suc 0) ''example.com'' 0 ?S"
  have r: "default_TTL ?rin = ?r"
    by (simp add: default_TTL_def)
  have h0: "heap ?S 0 = Some ?rin"
    by (simp add: demo_state_def demo_heap_def)
  have "?X = (fst ?X, snd ?X)"
    by (rule surjective_pairing)
  with h0 have h: "?X = (fst ?X, snd ?X) \<and> heap ?S 0 = Some ?rin"
    by (rule conjI[rotated])
  have l0: "log ?S = []"
    by (simp add: demo_state_def)
  from create_body_interpolation[where env = ?E and fuel = "Suc 0" and zone = "''example.com''"
      and a = 0 and st = ?S and it = "fst ?X" and st' = "snd ?X" and ?r0.0 = ?rin,
      THEN conjunct1, THEN mp, OF h]
  have b: "\<forall>e \<in> set (posts (log (snd ?X))). Body (fst e) = Some (create_body ?r)"
    unfolding l0 r by auto
  have "\<bar>sint (TTL ?r)\<bar> < 16777216000000000"
    by (simp add: Second_def)
  with create_body_interpolation[where r = ?r, THEN conjunct2, THEN conjunct1]
  have "create_body ?r = interpolated_body ?r"
    by (rule mp)
  also have "\<dots> = ''{\"type\":\"TXT\",\"name\":\"_acme-challenge\",\"content\":\"tok\",\"ttl\":120}''"
    by (simp add: interpolated_body_def truncated_seconds_def Second_def signed_divide_int_def
        fmt_d_def digits10_eval digit_char_def)
  finally have cb: "create_body ?r =
      ''{\"type\":\"TXT\",\"name\":\"_acme-challenge\",\"content\":\"tok\",\"ttl\":120}''" .
  have p1: "list_all (\<lambda>e. Body (fst e) =
        Some ''{\"type\":\"TXT\",\"name\":\"_acme-challenge\",\"content\":\"tok\",\"ttl\":120}'')
     (posts (log (snd ?X)))"
    using b unfolding cb by (simp add: list_all_iff)
  have "fst ?X = Completed"
    by (simp add: demo_defs AppendRecords_body_def demo_heap_def create_urlPath_def
        create_sigPath_def Let_def)
  with AppendRecords_body_Completed[OF surjective_pairing, of ?E "Suc 0" "''example.com''" 0 ?S]
  obtain new req resp where "log (snd ?X) = log ?S @ new" "posts new = [(req, Inr resp)]"
    by blast
  then have p2: "length (posts (log (snd ?X))) = 1"
    by (simp add: l0)
  have "\<bar>sint (TTL ?u)\<bar> < 16777216000000000"
    by simp
  with create_body_interpolation[where r = ?u, THEN conjunct2, THEN conjunct1]
  have "create_body ?u = interpolated_body ?u"
    by (rule mp)
  also have "\<dots> = ''{\"type\":\"TXT\",\"name\":\"a\",\"content\":\"b\",\"ttl\":1}''"
    by (simp add: interpolated_body_def truncated_seconds_def signed_divide_int_def
        fmt_d_def digits10_eval digit_char_def)
  finally have p3: "create_body ?u = ''{\"type\":\"TXT\",\"name\":\"a\",\"content\":\"b\",\"ttl\":1}''" .
  from p1 p2 p3 show ?thesis
    by (intro conjI)
qed

text \<open>
  The claim as stated fails: for a TTL of 16777216.999999999 seconds the float64 sum of
  \<^verbatim>\<open>Seconds\<close> rounds to 16777217, which is the number in the body, while the truncation
  to whole seconds is 16777216.
\<close>

theorem create_body_rounds_up:
  "create_body \<lparr>Name = ''a'', TTL = 16777216999999999, Text = ''b'', ProviderData = any_nil\<rparr> =
     ''{\"type\":\"TXT\",\"name\":\"a\",\"content\":\"b\",\"ttl\":16777217}'' \<and>
   interpolated_body \<lparr>Name = ''a'', TTL = 16777216999999999, Text = ''b'', ProviderData = any_nil\<rparr> =
     ''{\"type\":\"TXT\",\"name\":\"a\",\"content\":\"b\",\"ttl\":16777216}''"
proof (intro conjI)
  show "create_body \<lparr>Name = ''a'', TTL = 16777216999999999, Text = ''b'', ProviderData = any_nil\<rparr> =
     ''{\"type\":\"TXT\",\"name\":\"a\",\"content\":\"b\",\"ttl\":16777217}''"
    by (simp add: create_body_def Seconds_rounds_up fmt_d_def digits10_eval digit_char_def)
  show "interpolated_body \<lparr>Name = ''a'', TTL = 16777216999999999, Text = ''b'', ProviderData = any_nil\<rparr> =
     ''{\"type\":\"TXT\",\"name\":\"a\",\"content\":\"b\",\"ttl\":16777216}''"
    by (simp add: interpolated_body_def truncated_seconds_def signed_divide_int_def
        fmt_d_def digits10_eval digit_char_def)
qed

end
